theory Spec2Isabelle
  imports Complex_Main
begin

section \<open>Python values shared by the filters\<close>

text \<open>
  The filters of \<^verbatim>\<open>best_filters.py\<close> are Python functions. An exception raised by a
  filter is a value \<open>Inl e\<close> of the result, a returned value is \<open>Inr v\<close>. Python strings
  are modelled as \<open>string\<close>, with characters restricted to the 8-bit range.
\<close>

datatype error =
  IndexError | ZeroDivisionError | OverflowError | ValueError | AttributeError

text \<open>Python's \<^verbatim>\<open>xs[i]\<close> for a non-negative index: out of range raises.\<close>

definition item :: "'a list \<Rightarrow> nat \<Rightarrow> error + 'a" where
  "item xs i = (if i < length xs then Inr (xs ! i) else Inl IndexError)"

text \<open>
  \<^verbatim>\<open>s.split(sep)\<close> for a separator of one character: the pieces between the
  occurrences of the separator, empty pieces kept.
\<close>

fun split_on :: "char \<Rightarrow> string \<Rightarrow> string list" where
  "split_on sep [] = [[]]"
| "split_on sep (c # cs) =
     (if c = sep then [] # split_on sep cs
      else (case split_on sep cs of
              [] \<Rightarrow> [[c]]
            | p # ps \<Rightarrow> (c # p) # ps))"

text \<open>
  \<^verbatim>\<open>s.replace(old, new)\<close>: the occurrences of \<open>old\<close> are found from left to right
  without overlap. For an empty \<open>old\<close> Python inserts \<open>new\<close> before every character
  and at the end.
\<close>

fun replace_from :: "string \<Rightarrow> string \<Rightarrow> string \<Rightarrow> string" where
  "replace_from [] old new = []"
| "replace_from (c # cs) old new =
     (if old \<noteq> [] \<and> take (length old) (c # cs) = old
      then new @ replace_from (drop (length old) (c # cs)) old new
      else c # replace_from cs old new)"

definition str_replace :: "string \<Rightarrow> string \<Rightarrow> string \<Rightarrow> string" where
  "str_replace s old new =
     (if old = [] then new @ concat (map (\<lambda>c. c # new) s)
      else replace_from s old new)"

text \<open>An occurrence of \<open>old\<close> in \<open>s\<close> that starts at index \<open>i\<close>.\<close>

definition occurs_at :: "string \<Rightarrow> string \<Rightarrow> nat \<Rightarrow> bool" where
  "occurs_at old s i = (take (length old) (drop i s) = old)"

section \<open>The filter \<^verbatim>\<open>replace\<close>\<close>

text \<open>
  \<^verbatim>\<open>
  def replace(str,arg):
      sep=arg[0]
      params = arg.split(sep)
      pat = params[1]
      rep = params[2]
      return str.replace(pat,rep)
  \<close>
\<close>

definition replace :: "string \<Rightarrow> string \<Rightarrow> error + string" where
  "replace str arg =
     (case item arg 0 of
        Inl e \<Rightarrow> Inl e
      | Inr sep \<Rightarrow>
          (let params = split_on sep arg in
           case item params 1 of
             Inl e \<Rightarrow> Inl e
           | Inr pat \<Rightarrow>
               (case item params 2 of
                  Inl e \<Rightarrow> Inl e
                | Inr rep \<Rightarrow> Inr (str_replace str pat rep))))"

section \<open>The filter \<^verbatim>\<open>age\<close>\<close>

record date =
  year :: int
  month :: int
  day :: int

text \<open>Python compares tuples lexicographically.\<close>

definition tuple_less :: "int \<times> int \<Rightarrow> int \<times> int \<Rightarrow> bool" where
  "tuple_less p q = (fst p < fst q \<or> (fst p = fst q \<and> snd p < snd q))"

text \<open>
  \<^verbatim>\<open>
  def age(bday, d=None):
      if d is None:
          d = datetime.date.today()
      return (d.year - bday.year) - int((d.month, d.day) < (bday.month, bday.day))
  \<close>
  The date of the call, \<^verbatim>\<open>datetime.date.today()\<close>, is the parameter \<open>today\<close>.
\<close>

definition age :: "date \<Rightarrow> date \<Rightarrow> date option \<Rightarrow> int" where
  "age today bday d =
     (let d' = (case d of None \<Rightarrow> today | Some x \<Rightarrow> x) in
      (year d' - year bday)
        - (if tuple_less (month d', day d') (month bday, day bday) then 1 else 0))"

section \<open>Python floats\<close>

text \<open>
  A Python float is an IEEE 754 double. A finite double is modelled by the rational
  number it denotes (the sign of a zero is not kept). \<open>nearest_double\<close> rounds a
  rational to 53 significant bits, ties to even, with the exponent of the last place
  never below \<open>-1074\<close> (the subnormal range); a result of magnitude \<open>2 ^ 1024\<close> or more
  is beyond the doubles.
\<close>

definition pow2 :: "int \<Rightarrow> rat" where
  "pow2 e = (if 0 \<le> e then 2 ^ nat e else 1 / 2 ^ nat (- e))"

definition round_half_even :: "rat \<Rightarrow> int" where
  "round_half_even x =
     (let f = \<lfloor>x\<rfloor>; r = x - of_int f in
      if r < 1 / 2 then f
      else if 1 / 2 < r then f + 1
      else if even f then f else f + 1)"

fun bit_length :: "nat \<Rightarrow> nat" where
  "bit_length n = (if n = 0 then 0 else Suc (bit_length (n div 2)))"

declare bit_length.simps [simp del]

text \<open>The exponent of a positive rational: \<open>2 ^ ilog2 q \<le> q < 2 ^ (ilog2 q + 1)\<close>.\<close>

definition ilog2 :: "rat \<Rightarrow> int" where
  "ilog2 q =
     (if 1 \<le> q then int (bit_length (nat \<lfloor>q\<rfloor>)) - 1
      else - int (bit_length (nat (\<lceil>1 / q\<rceil> - 1))))"

definition nearest_double :: "rat \<Rightarrow> rat" where
  "nearest_double q =
     (if q = 0 then 0
      else (let p = max (ilog2 \<bar>q\<bar> - 52) (- 1074) in
            sgn q * of_int (round_half_even (\<bar>q\<bar> / pow2 p)) * pow2 p))"

definition to_double :: "rat \<Rightarrow> error + rat" where
  "to_double q =
     (let r = nearest_double q in
      if pow2 1024 \<le> \<bar>r\<bar> then Inl OverflowError else Inr r)"

text \<open>
  \<^verbatim>\<open>a / b\<close> on two ints (Python 3): a zero divisor raises ZeroDivisionError, otherwise
  the result is the double nearest to the exact quotient, and OverflowError when that
  is too large for a double.
\<close>

definition int_truediv :: "int \<Rightarrow> int \<Rightarrow> error + rat" where
  "int_truediv a b =
     (if b = 0 then Inl ZeroDivisionError else to_double (of_int a / of_int b))"

text \<open>\<^verbatim>\<open>float(i)\<close>, the conversion that \<^verbatim>\<open>i / x\<close> applies to an int \<open>i\<close> for a float \<open>x\<close>.\<close>

definition int_to_float :: "int \<Rightarrow> error + rat" where
  "int_to_float i = to_double (of_int i)"

text \<open>\<^verbatim>\<open>int(x)\<close> on a float: truncation towards zero.\<close>

definition float_to_int :: "rat \<Rightarrow> int" where
  "float_to_int x = (if 0 \<le> x then \<lfloor>x\<rfloor> else \<lceil>x\<rceil>)"

text \<open>\<^verbatim>\<open>'%d' % i\<close>: the decimal digits of an int, with a minus sign when negative.\<close>

fun show_nat :: "nat \<Rightarrow> string" where
  "show_nat n =
     (if n < 10 then [''0123456789'' ! n]
      else show_nat (n div 10) @ [''0123456789'' ! (n mod 10)])"

declare show_nat.simps [simp del]

definition show_int :: "int \<Rightarrow> string" where
  "show_int i = (if i < 0 then CHR ''-'' # show_nat (nat (- i)) else show_nat (nat i))"

section \<open>The filter \<^verbatim>\<open>divide\<close>\<close>

text \<open>
  \<^verbatim>\<open>
  def divide(val,arg):
      return val / arg
  \<close>
  The operands are Python ints, as in the examples of the docstring
  (\<^verbatim>\<open>{{ myval|divide:2 }}\<close>). The docstring expects \<^verbatim>\<open>100|divide:3|floatformat:2\<close> to
  give \<^verbatim>\<open>33.33\<close>: the division is Python 3's true division.
\<close>

definition divide :: "int \<Rightarrow> int \<Rightarrow> error + rat" where
  "divide val arg = int_truediv val arg"

section \<open>The filter \<^verbatim>\<open>timesince_simple\<close>\<close>

text \<open>
  A naive \<^verbatim>\<open>datetime.datetime\<close>, its fields within their ranges. The difference of two of
  them is a \<^verbatim>\<open>timedelta\<close>, normalised so that its seconds and microseconds are not
  negative: its \<^verbatim>\<open>days\<close> are the whole days of the difference, rounded down.
\<close>

record datetime =
  dt_year :: int
  dt_month :: int
  dt_day :: int
  dt_hour :: int
  dt_minute :: int
  dt_second :: int
  dt_microsecond :: int

definition is_leap :: "int \<Rightarrow> bool" where
  "is_leap y = (y mod 4 = 0 \<and> (y mod 100 \<noteq> 0 \<or> y mod 400 = 0))"

definition days_before_year :: "int \<Rightarrow> int" where
  "days_before_year y =
     (let y1 = y - 1 in y1 * 365 + y1 div 4 - y1 div 100 + y1 div 400)"

definition days_before_month :: "int \<Rightarrow> int \<Rightarrow> int" where
  "days_before_month y m =
     [- 1, 0, 31, 59, 90, 120, 151, 181, 212, 243, 273, 304, 334] ! nat m
       + (if 2 < m \<and> is_leap y then 1 else 0)"

definition toordinal :: "datetime \<Rightarrow> int" where
  "toordinal t =
     days_before_year (dt_year t) + days_before_month (dt_year t) (dt_month t) + dt_day t"

definition timedelta_days :: "datetime \<Rightarrow> datetime \<Rightarrow> int" where
  "timedelta_days t2 t1 =
     (let days = toordinal t2 - toordinal t1;
          secs = (dt_second t2 + dt_minute t2 * 60 + dt_hour t2 * 3600)
                   - (dt_second t1 + dt_minute t1 * 60 + dt_hour t1 * 3600);
          us = dt_microsecond t2 - dt_microsecond t1
      in ((days * 86400 + secs) * 1000000 + us) div (86400 * 1000000))"

text \<open>
  \<^verbatim>\<open>
  def timesince_simple(t1, t2=None):
      if t2 is None:
          t2 = datetime.datetime.now()
      d = t2 - t1
      days=d.days
      if days:
          if not days :
              return _('today')
          elif days < 7 :
              return _('%d days') % days
          elif days < 14 :
              return _('one week')
          elif days < 30 :
              return _('%d weeks') % int(days / 7)
          elif days < 60 :
              return _('one month')
          elif days < 365 :
              return _('%d months') % int(days / 30)
          elif days < 730 :
              return _('one year')
          else:
              return _('%d years') % int(days / 365.25)
  \<close>
  The time of the call, \<^verbatim>\<open>datetime.datetime.now()\<close>, is the parameter \<open>now\<close>. The
  translation \<^verbatim>\<open>_\<close> is taken without a message catalogue: it returns its argument. A
  call that reaches the end of the body returns Python's \<^verbatim>\<open>None\<close>, here \<open>Inr None\<close>.
  \<^verbatim>\<open>365.25\<close> is the double \<open>1461 / 4\<close>; the quotient of the double of \<open>days\<close> by it is
  smaller in magnitude and so within the doubles.
\<close>

definition timesince_simple ::
    "datetime \<Rightarrow> datetime \<Rightarrow> datetime option \<Rightarrow> error + string option" where
  "timesince_simple now t1 t2 =
     (let t2' = (case t2 of None \<Rightarrow> now | Some t \<Rightarrow> t);
          days = timedelta_days t2' t1
      in if days \<noteq> 0 then
           (if \<not> days \<noteq> 0 then Inr (Some ''today'')
            else if days < 7 then Inr (Some (show_int days @ '' days''))
            else if days < 14 then Inr (Some ''one week'')
            else if days < 30 then
              (case int_truediv days 7 of
                 Inl e \<Rightarrow> Inl e
               | Inr w \<Rightarrow> Inr (Some (show_int (float_to_int w) @ '' weeks'')))
            else if days < 60 then Inr (Some ''one month'')
            else if days < 365 then
              (case int_truediv days 30 of
                 Inl e \<Rightarrow> Inl e
               | Inr m \<Rightarrow> Inr (Some (show_int (float_to_int m) @ '' months'')))
            else if days < 730 then Inr (Some ''one year'')
            else
              (case int_to_float days of
                 Inl e \<Rightarrow> Inl e
               | Inr d \<Rightarrow>
                   Inr (Some (show_int (float_to_int (nearest_double (d / (1461 / 4))))
                               @ '' years''))))
         else Inr None)"

section \<open>Regular expressions\<close>

text \<open>
  The part of Python's \<^verbatim>\<open>re\<close> that the filters use. A compiled pattern is a value of
  \<open>re\<close>; \<open>AnyChar\<close> is the dot (any character but the newline), \<open>Space\<close> the class
  \<^verbatim>\<open>\s\<close>. A star and a counted repetition stand on a single character only.
\<close>

datatype atom = Lit char | AnyChar | Space

datatype re =
    Eps
  | Atom atom
  | Star atom
  | Rep atom nat nat
  | Opt re
  | Seq re re
  | Alt re re

text \<open>The characters below 256 for which \<^verbatim>\<open>str.isspace\<close> holds.\<close>

definition is_space :: "char \<Rightarrow> bool" where
  "is_space c =
     (c \<in> set [CHR 0x09, CHR 0x0A, CHR 0x0B, CHR 0x0C, CHR 0x0D, CHR 0x1C, CHR 0x1D,
                CHR 0x1E, CHR 0x1F, CHR 0x20, CHR 0x85, CHR 0xA0])"

fun atom_ok :: "atom \<Rightarrow> char \<Rightarrow> bool" where
  "atom_ok (Lit x) c = (c = x)"
| "atom_ok AnyChar c = (c \<noteq> CHR 0x0A)"
| "atom_ok Space c = is_space c"

text \<open>
  \<open>rests r s\<close> lists what is left of \<open>s\<close> after each prefix that \<open>r\<close> matches, in
  the order in which the backtracking matcher tries the matches: a repetition takes as
  much as it can first, an alternation tries its left branch first.
\<close>

fun star_rests :: "atom \<Rightarrow> string \<Rightarrow> string list" where
  "star_rests a [] = [[]]"
| "star_rests a (c # cs) =
     (if atom_ok a c then star_rests a cs @ [c # cs] else [c # cs])"

fun rep_rests :: "atom \<Rightarrow> nat \<Rightarrow> nat \<Rightarrow> string \<Rightarrow> string list" where
  "rep_rests a m 0 s = (if m = 0 then [s] else [])"
| "rep_rests a m (Suc n) [] = (if m = 0 then [[]] else [])"
| "rep_rests a m (Suc n) (c # cs) =
     (if atom_ok a c
      then rep_rests a (m - 1) n cs @ (if m = 0 then [c # cs] else [])
      else (if m = 0 then [c # cs] else []))"

fun rests :: "re \<Rightarrow> string \<Rightarrow> string list" where
  "rests Eps s = [s]"
| "rests (Atom a) s = (case s of [] \<Rightarrow> [] | c # cs \<Rightarrow> if atom_ok a c then [cs] else [])"
| "rests (Star a) s = star_rests a s"
| "rests (Rep a m n) s = rep_rests a m n s"
| "rests (Opt r) s = rests r s @ [s]"
| "rests (Seq r1 r2) s = concat (map (rests r2) (rests r1 s))"
| "rests (Alt r1 r2) s = rests r1 s @ rests r2 s"

text \<open>
  \<^verbatim>\<open>pattern.sub('', s)\<close> (Python 3.7 and later): the matches are found from left to
  right and deleted. An empty match deletes nothing, and after it the search goes on at
  the same place for a match that is not empty; so the match that counts at a place
  is the first one tried that is not empty. Where there is none, the character is
  kept.
\<close>

definition match_here :: "re \<Rightarrow> string \<Rightarrow> string option" where
  "match_here r s = find (\<lambda>t. length t < length s) (rests r s)"

lemma match_here_shorter: "match_here r s = Some t \<Longrightarrow> length t < length s"
  by (auto simp: match_here_def find_Some_iff)

function re_delete :: "re \<Rightarrow> string \<Rightarrow> string" where
  "re_delete r [] = []"
| "re_delete r (c # cs) =
     (case match_here r (c # cs) of
        Some t \<Rightarrow> re_delete r t
      | None \<Rightarrow> c # re_delete r cs)"
  by pat_completeness auto
termination
  by (relation "measure (\<lambda>(r, s). length s)") (auto dest: match_here_shorter)


text \<open>
  \<^verbatim>\<open>re.compile\<close> for patterns made of literal characters, escaped punctuation, the
  dot, \<^verbatim>\<open>\s\<close> (also written \<^verbatim>\<open>[\s]\<close>), groups, the alternation bar, the question mark,
  and the star and the repetition \<^verbatim>\<open>{m,n}\<close> (one digit each) on a single character.
  \<open>None\<close> stands for a pattern outside this fragment, which includes the patterns that
  \<^verbatim>\<open>re\<close> rejects. The pieces of the current branch (each with a mark that says whether
  it already carries a repetition) and the finished branches are kept in reverse; the
  stack holds them for the groups that are still open.
\<close>

definition is_special :: "char \<Rightarrow> bool" where
  "is_special c = (c \<in> set ''^$+}]'')"

definition is_digit :: "char \<Rightarrow> bool" where
  "is_digit c = (c \<in> set ''0123456789'')"

definition digit_val :: "char \<Rightarrow> nat" where
  "digit_val c = of_char c - 48"

definition is_alnum :: "char \<Rightarrow> bool" where
  "is_alnum c =
     (c \<in> set ''abcdefghijklmnopqrstuvwxyzABCDEFGHIJKLMNOPQRSTUVWXYZ0123456789''
      \<or> 128 \<le> (of_char c :: nat))"

fun seq_of :: "re list \<Rightarrow> re" where
  "seq_of [] = Eps"
| "seq_of [r] = r"
| "seq_of (r # rs) = Seq r (seq_of rs)"

fun alt_of :: "re list \<Rightarrow> re" where
  "alt_of [] = Eps"
| "alt_of [r] = r"
| "alt_of (r # rs) = Alt r (alt_of rs)"

definition branch_of :: "(re \<times> bool) list \<Rightarrow> re" where
  "branch_of pieces = seq_of (rev (map fst pieces))"

definition group_of :: "(re \<times> bool) list \<Rightarrow> re list \<Rightarrow> re" where
  "group_of pieces branches = alt_of (rev (branch_of pieces # branches))"

fun parse_re ::
    "string \<Rightarrow> (re \<times> bool) list \<Rightarrow> re list
      \<Rightarrow> ((re \<times> bool) list \<times> re list) list \<Rightarrow> re option" where
  "parse_re [] pieces branches stack =
     (if stack = [] then Some (group_of pieces branches) else None)"
| "parse_re (c # cs) pieces branches stack =
     (if c = CHR ''|'' then parse_re cs [] (branch_of pieces # branches) stack
      else if c = CHR ''('' then
        (case cs of
           [] \<Rightarrow> None
         | d # ds \<Rightarrow>
             if d = CHR ''?'' then None
             else parse_re cs [] [] ((pieces, branches) # stack))
      else if c = CHR '')'' then
        (case stack of
           [] \<Rightarrow> None
         | (ps, bs) # st \<Rightarrow> parse_re cs ((group_of pieces branches, False) # ps) bs st)
      else if c = CHR ''.'' then parse_re cs ((Atom AnyChar, False) # pieces) branches stack
      else if c = CHR ''*'' then
        (case pieces of
           (Atom a, False) # ps \<Rightarrow> parse_re cs ((Star a, True) # ps) branches stack
         | _ \<Rightarrow> None)
      else if c = CHR ''?'' then
        (case pieces of
           (r, False) # ps \<Rightarrow> parse_re cs ((Opt r, True) # ps) branches stack
         | _ \<Rightarrow> None)
      else if c = CHR ''{'' then
        (case cs of
           m # comma # n # close # rest \<Rightarrow>
             (if is_digit m \<and> comma = CHR '','' \<and> is_digit n \<and> close = CHR ''}''
                 \<and> digit_val m \<le> digit_val n
              then (case pieces of
                      (Atom a, False) # ps \<Rightarrow>
                        parse_re rest ((Rep a (digit_val m) (digit_val n), True) # ps)
                          branches stack
                    | _ \<Rightarrow> None)
              else None)
         | _ \<Rightarrow> None)
      else if c = CHR ''['' then
        (case cs of
           b # s # close # rest \<Rightarrow>
             (if b = CHR 0x5C \<and> s = CHR ''s'' \<and> close = CHR '']''
              then parse_re rest ((Atom Space, False) # pieces) branches stack
              else None)
         | _ \<Rightarrow> None)
      else if c = CHR 0x5C then
        (case cs of
           [] \<Rightarrow> None
         | e # es \<Rightarrow>
             if e = CHR ''s'' then parse_re es ((Atom Space, False) # pieces) branches stack
             else if is_alnum e then None
             else parse_re es ((Atom (Lit e), False) # pieces) branches stack)
      else if is_special c then None
      else parse_re cs ((Atom (Lit c), False) # pieces) branches stack)"

definition re_compile :: "string \<Rightarrow> re option" where
  "re_compile p = parse_re p [] [] []"

section \<open>The filter \<^verbatim>\<open>truncat\<close>\<close>

text \<open>
  \<^verbatim>\<open>
  def truncat(str, pattern):
      return re.sub(pattern+'.*', '', str)
  \<close>
  The result is \<open>None\<close> for a pattern outside the fragment of \<open>re_compile\<close>.
\<close>

definition truncat :: "string \<Rightarrow> string \<Rightarrow> string option" where
  "truncat str pattern =
     (case re_compile (pattern @ ''.*'') of
        None \<Rightarrow> None
      | Some r \<Rightarrow> Some (re_delete r str))"

section \<open>The pattern of \<^verbatim>\<open>sanitize\<close>\<close>



definition js_ref :: re where
  "js_ref =
     Seq (Atom (Lit CHR ''&''))
       (Seq (Atom (Lit CHR ''#'')) (Seq (Atom (Lit CHR ''x'')) (Rep AnyChar 1 7)))"

fun js_chain :: "string \<Rightarrow> re" where
  "js_chain [] = Eps"
| "js_chain [c] = Atom (Lit c)"
| "js_chain (c # cs) = Seq (Atom (Lit c)) (Seq (Star Space) (Seq (Opt js_ref) (js_chain cs)))"

definition js_regex :: re where
  "js_regex = js_chain ''javascript''"

text \<open>\<^verbatim>\<open>js_regex.sub('', val)\<close>\<close>

definition scrub :: "string \<Rightarrow> string" where
  "scrub val = re_delete js_regex val"

section \<open>The filter \<^verbatim>\<open>sanitize\<close>\<close>

text \<open>
  The tree is that of the library that the code imports
  (\<^verbatim>\<open>from bs4 import BeautifulSoup, Comment\<close>); the library is not part of the
  repository, and it is modelled as far as the code uses it. A parsed element has a
  name, its attributes and its children; the other nodes are text and comments. In \<^verbatim>\<open>bs4\<close> the attributes \<^verbatim>\<open>tag.attrs\<close> of an element are
  a dict from attribute names to values, kept here as the list of its items in order.
\<close>

datatype node =
    Tag string "(string \<times> string) list" "node list"
  | Text string
  | Comment string

text \<open>
  What the code takes from outside: the parser (\<open>Inl msg\<close> when it raises an exception
  \<open>e\<close> with \<^verbatim>\<open>str(e) = msg\<close>) and Django's filter \<^verbatim>\<open>linenumbers\<close>. The translation \<^verbatim>\<open>_\<close>
  returns its argument.
\<close>

record env =
  parse :: "string \<Rightarrow> string + node list"
  linenumbers :: "string \<Rightarrow> string"

text \<open>\<^verbatim>\<open>s.split()\<close>: the words between runs of whitespace.\<close>

fun split_ws :: "string \<Rightarrow> string \<Rightarrow> string list" where
  "split_ws cur [] = (if cur = [] then [] else [rev cur])"
| "split_ws cur (c # cs) =
     (if is_space c then (if cur = [] then split_ws [] cs else rev cur # split_ws [] cs)
      else split_ws (c # cur) cs)"

text \<open>
  \<^verbatim>\<open>
  allowed_tags = [tag.split(':') for tag in allowed_tags.split()]
  allowed_tags = dict((tag[0], tag[1:]) for tag in allowed_tags)
  \<close>
\<close>

fun build_dict ::
    "(string \<rightharpoonup> string list) \<Rightarrow> string list list \<Rightarrow> error + (string \<rightharpoonup> string list)" where
  "build_dict m [] = Inr m"
| "build_dict m (tag # tags) =
     (case item tag 0 of
        Inl e \<Rightarrow> Inl e
      | Inr name \<Rightarrow> build_dict (m(name \<mapsto> drop 1 tag)) tags)"

definition policy_of :: "string \<Rightarrow> error + (string \<rightharpoonup> string list)" where
  "policy_of allowed_tags =
     build_dict Map.empty (map (split_on CHR '':'') (split_ws [] allowed_tags))"

text \<open>
  \<^verbatim>\<open>
  for comment in soup.findAll(text=lambda text: isinstance(text, Comment)):
      comment.extract()
  \<close>
\<close>

fun extract_comments :: "node \<Rightarrow> node list" where
  "extract_comments (Tag name attrs contents) =
     [Tag name attrs (concat (map extract_comments contents))]"
| "extract_comments (Text s) = [Text s]"
| "extract_comments (Comment s) = []"

text \<open>
  \<^verbatim>\<open>
  for tag in soup.findAll(True):
      if tag.name not in allowed_tags:
          tag.hidden = True
      else:
          tag.attrs = [(attr, js_regex.sub('', val)) for attr, val in tag.attrs
                       if attr in allowed_tags[tag.name]]
  \<close>
  Iterating over the dict \<^verbatim>\<open>tag.attrs\<close> gives its keys, the attribute names. The target
  \<^verbatim>\<open>attr, val\<close> unpacks each name: a name of two characters gives one character to each,
  any other name raises ValueError. The loop visits the elements in document order and
  leaves each one either hidden, with its dict, or with a list in place of the dict.
\<close>

definition unpack2 :: "string \<Rightarrow> error + string \<times> string" where
  "unpack2 key = (case key of [a, b] \<Rightarrow> Inr ([a], [b]) | _ \<Rightarrow> Inl ValueError)"

fun new_attrs :: "string list \<Rightarrow> string list \<Rightarrow> error + (string \<times> string) list" where
  "new_attrs names [] = Inr []"
| "new_attrs names (key # keys) =
     (case unpack2 key of
        Inl e \<Rightarrow> Inl e
      | Inr (attr, val) \<Rightarrow>
          (case new_attrs names keys of
             Inl e \<Rightarrow> Inl e
           | Inr rest \<Rightarrow>
               Inr (if attr \<in> set names then (attr, scrub val) # rest else rest)))"

datatype mnode =
    HiddenTag string "(string \<times> string) list" "mnode list"
  | ListTag string "(string \<times> string) list" "mnode list"
  | MText string
  | MComment string

fun traverse :: "('a \<Rightarrow> error + 'b) \<Rightarrow> 'a list \<Rightarrow> error + 'b list" where
  "traverse f [] = Inr []"
| "traverse f (x # xs) =
     (case f x of
        Inl e \<Rightarrow> Inl e
      | Inr y \<Rightarrow> (case traverse f xs of Inl e \<Rightarrow> Inl e | Inr ys \<Rightarrow> Inr (y # ys)))"

lemma traverse_cong [fundef_cong]:
  "xs = ys \<Longrightarrow> (\<And>x. x \<in> set ys \<Longrightarrow> f x = g x) \<Longrightarrow> traverse f xs = traverse g ys"
  by (induction ys arbitrary: xs) (auto split: sum.splits)

fun visit :: "(string \<rightharpoonup> string list) \<Rightarrow> node \<Rightarrow> error + mnode" where
  "visit allowed (Tag name attrs contents) =
     (case allowed name of
        None \<Rightarrow>
          (case traverse (visit allowed) contents of
             Inl e \<Rightarrow> Inl e
           | Inr cs \<Rightarrow> Inr (HiddenTag name attrs cs))
      | Some names \<Rightarrow>
          (case new_attrs names (map fst attrs) of
             Inl e \<Rightarrow> Inl e
           | Inr pairs \<Rightarrow>
               (case traverse (visit allowed) contents of
                  Inl e \<Rightarrow> Inl e
                | Inr cs \<Rightarrow> Inr (ListTag name pairs cs))))"
| "visit allowed (Text s) = Inr (MText s)"
| "visit allowed (Comment s) = Inr (MComment s)"

text \<open>
  \<^verbatim>\<open>soup.renderContents().decode('utf8')\<close>: the serialiser writes a hidden element
  without its own tags, and reads the attributes of any other element as a dict
  (\<^verbatim>\<open>self.attrs.items()\<close>), which raises AttributeError on a list. Text is written with
  \<^verbatim>\<open>&\<close>, \<^verbatim>\<open><\<close> and \<^verbatim>\<open>>\<close> replaced by entities, except inside \<^verbatim>\<open>script\<close> and \<^verbatim>\<open>style\<close>,
  where it is written as it is. The parent of the top nodes is the document.
\<close>

fun escape :: "string \<Rightarrow> string" where
  "escape [] = []"
| "escape (c # cs) =
     (if c = CHR ''&'' then ''&amp;''
      else if c = CHR ''<'' then ''&lt;''
      else if c = CHR ''>'' then ''&gt;''
      else [c]) @ escape cs"

definition text_out :: "string \<Rightarrow> string \<Rightarrow> string" where
  "text_out parent s = (if parent \<in> set [''script'', ''style''] then s else escape s)"

fun concat_all :: "(error + string) list \<Rightarrow> error + string" where
  "concat_all [] = Inr []"
| "concat_all (r # rs) =
     (case r of
        Inl e \<Rightarrow> Inl e
      | Inr a \<Rightarrow> (case concat_all rs of Inl e \<Rightarrow> Inl e | Inr b \<Rightarrow> Inr (a @ b)))"

fun render :: "string \<Rightarrow> mnode \<Rightarrow> error + string" where
  "render parent (HiddenTag name attrs contents) = concat_all (map (render name) contents)"
| "render parent (ListTag name pairs contents) = Inl AttributeError"
| "render parent (MText s) = Inr (text_out parent s)"
| "render parent (MComment s) = Inr (''<!--'' @ s @ ''-->'')"

definition renderContents :: "mnode list \<Rightarrow> error + string" where
  "renderContents soup = concat_all (map (render ''[document]'') soup)"

definition hint :: string where
  \<open>hint = ''You have a HTML syntax error, please, check you have quote href and src attributes, that is href="xxx" or src="yyy" and not href=xxx or src=yyy''\<close>

definition diagnostic :: "string \<Rightarrow> string \<Rightarrow> string" where
  \<open>diagnostic msg numbered =
     ''<br><span class="warning">'' @ msg @ '' :<br>'' @ hint
       @ ''</span><br><pre class="sanitize">'' @ numbered @ ''</pre>''\<close>

text \<open>
  \<^verbatim>\<open>
  def sanitize(value, allowed_tags):
      js_regex = re.compile(...)
      allowed_tags = ...
      try:
          soup = BeautifulSoup(value)
      except Exception as e:
          return '<br><span class="warning">%s :<br>%s</span><br><pre class="sanitize">%s</pre>' % (str(e), _('You have a HTML syntax error, ...'), linenumbers(value, True) )
      for comment in ...: comment.extract()
      for tag in soup.findAll(True): ...
      return soup.renderContents().decode('utf8')
  \<close>
  \<open>sanitize_soup\<close> is the part after the \<^verbatim>\<open>try\<close>.
\<close>

definition sanitize_soup :: "(string \<rightharpoonup> string list) \<Rightarrow> node list \<Rightarrow> error + string" where
  "sanitize_soup allowed soup =
     (case traverse (visit allowed) (concat (map extract_comments soup)) of
        Inl e \<Rightarrow> Inl e
      | Inr marked \<Rightarrow> renderContents marked)"

definition sanitize :: "env \<Rightarrow> string \<Rightarrow> string \<Rightarrow> error + string" where
  "sanitize env val allowed_tags =
     (case policy_of allowed_tags of
        Inl e \<Rightarrow> Inl e
      | Inr allowed \<Rightarrow>
          (case parse env val of
             Inl msg \<Rightarrow> Inr (diagnostic msg (linenumbers env val))
           | Inr soup \<Rightarrow> sanitize_soup allowed soup))"

text \<open>
  Properties of a parsed tree, used to state what \<open>sanitize\<close> does: an element of the
  policy with an attribute name that is not of two characters; an element of the
  policy; the text of the tree as it is written (comments left out); a text with a
  \<^verbatim>\<open><\<close> inside \<^verbatim>\<open>script\<close> or \<^verbatim>\<open>style\<close>.
\<close>

fun has_bad :: "(string \<rightharpoonup> string list) \<Rightarrow> node \<Rightarrow> bool" where
  "has_bad allowed (Tag name attrs contents) =
     ((allowed name \<noteq> None \<and> list_ex (\<lambda>key. length key \<noteq> 2) (map fst attrs))
      \<or> list_ex (has_bad allowed) contents)"
| "has_bad allowed (Text s) = False"
| "has_bad allowed (Comment s) = False"

fun has_allowed :: "(string \<rightharpoonup> string list) \<Rightarrow> node \<Rightarrow> bool" where
  "has_allowed allowed (Tag name attrs contents) =
     (allowed name \<noteq> None \<or> list_ex (has_allowed allowed) contents)"
| "has_allowed allowed (Text s) = False"
| "has_allowed allowed (Comment s) = False"

fun texts :: "string \<Rightarrow> node \<Rightarrow> string" where
  "texts parent (Tag name attrs contents) = concat (map (texts name) contents)"
| "texts parent (Text s) = text_out parent s"
| "texts parent (Comment s) = []"


text \<open>The text of a tree as it is written when every element is hidden.\<close>

fun written :: "string \<Rightarrow> node \<Rightarrow> string" where
  "written parent (Tag name attrs contents) = concat (map (written name) contents)"
| "written parent (Text s) = text_out parent s"
| "written parent (Comment s) = ''<!--'' @ s @ ''-->''"

text \<open>
  What the loop and the serialiser do with one node: the loop raises ValueError on a
  node with a bad element; otherwise it returns, and the serialiser raises
  AttributeError when the node has an element of the policy and writes the text of
  the node when it has none.
\<close>

definition visit_spec :: "(string \<rightharpoonup> string list) \<Rightarrow> node \<Rightarrow> bool" where
  "visit_spec allowed n =
     (if has_bad allowed n then visit allowed n = Inl ValueError
      else (\<exists>m. visit allowed n = Inr m
              \<and> (\<forall>p. render p m
                    = (if has_allowed allowed n then Inl AttributeError
                       else Inr (written p n)))))"

text \<open>
  For the examples: an environment whose parser returns a given tree, the tree of the
  fragment that the example names.
\<close>

definition env_of :: "node list \<Rightarrow> env" where
  "env_of soup = \<lparr>parse = (\<lambda>s. Inr soup), linenumbers = (\<lambda>s. s)\<rparr>"


section \<open>Facts about the string operations\<close>

lemma split_on_nonempty: "split_on sep s \<noteq> []"
  by (induction s) (auto split: list.splits)

lemma split_on_no_sep: "sep \<notin> set s \<Longrightarrow> split_on sep s = [s]"
  by (induction s) auto

lemma split_on_append:
  "sep \<notin> set p \<Longrightarrow> split_on sep (p @ sep # r) = p # split_on sep r"
  by (induction p) auto

lemma split_on_own_first:
  "split_on sep (sep # r) = [] # split_on sep r"
  by simp

lemma replace_from_head:
  "old \<noteq> [] \<Longrightarrow> replace_from (old @ r) old new = new @ replace_from r old new"
  by (cases old) auto

lemma occurs_at_tail:
  assumes "\<forall>i<length (c # p). \<not> occurs_at old ((c # p) @ r) i"
  shows "\<forall>i<length p. \<not> occurs_at old (p @ r) i"
proof (intro allI impI)
  fix i assume "i < length p"
  then have "\<not> occurs_at old ((c # p) @ r) (Suc i)" using assms by auto
  then show "\<not> occurs_at old (p @ r) i" by (simp add: occurs_at_def)
qed

lemma replace_from_first:
  "old \<noteq> [] \<Longrightarrow> (\<forall>i<length p. \<not> occurs_at old (p @ old @ r) i) \<Longrightarrow>
   replace_from (p @ old @ r) old new = p @ new @ replace_from r old new"
proof (induction p)
  case Nil
  then show ?case using replace_from_head by simp
next
  case (Cons c p)
  from Cons.prems(2) have "\<not> occurs_at old ((c # p) @ old @ r) 0" by blast
  then have no: "take (length old) (c # p @ old @ r) \<noteq> old"
    by (simp add: occurs_at_def)
  from Cons.prems(2) have "\<forall>i<length p. \<not> occurs_at old (p @ old @ r) i"
    by (rule occurs_at_tail)
  with Cons.IH Cons.prems(1)
  have "replace_from (p @ old @ r) old new = p @ new @ replace_from r old new"
    by blast
  with no show ?case by simp
qed

lemma replace_from_none:
  "(\<forall>i<length s. \<not> occurs_at old s i) \<Longrightarrow> replace_from s old new = s"
proof (induction s)
  case Nil
  then show ?case by simp
next
  case (Cons c s)
  from Cons.prems have "\<not> occurs_at old (c # s) 0" by auto
  then have no: "take (length old) (c # s) \<noteq> old" by (simp add: occurs_at_def)
  from Cons.prems have "\<forall>i<length s. \<not> occurs_at old (s @ []) i"
    using occurs_at_tail [of c s old "[]"] by simp
  with Cons.IH have "replace_from s old new = s" by simp
  with no show ?case by simp
qed

lemma replace_fails_iff:
  "replace s a = Inl e \<longleftrightarrow>
     e = IndexError \<and> (a = [] \<or> length (split_on (hd a) a) < 3)"
  by (cases a) (auto simp: replace_def item_def Let_def split: sum.splits)

lemma replace_returns:
  "a \<noteq> [] \<Longrightarrow> 3 \<le> length (split_on (hd a) a) \<Longrightarrow>
   replace s a = Inr (str_replace s (split_on (hd a) a ! 1) (split_on (hd a) a ! 2))"
  by (cases a) (auto simp: replace_def item_def Let_def split: sum.splits)

lemma replace_three_parts:
  "sep \<notin> set pat \<Longrightarrow> sep \<notin> set rep \<Longrightarrow>
   replace s (sep # pat @ sep # rep) = Inr (str_replace s pat rep)"
  by (simp add: replace_def item_def Let_def split_on_append split_on_no_sep)

section \<open>Facts about the float model\<close>

lemma pow2_powi: "pow2 e = 2 powi e"
  by (simp add: pow2_def power_int_def inverse_eq_divide power_one_over)

lemma pow2_pos: "0 < pow2 e"
  by (simp add: pow2_powi)

lemma pow2_add: "pow2 (a + b) = pow2 a * pow2 b"
  by (simp add: pow2_powi power_int_add)

lemma pow2_less_iff: "pow2 a < pow2 b \<longleftrightarrow> a < b"
proof
  assume "pow2 a < pow2 b"
  show "a < b"
  proof (rule ccontr)
    assume "\<not> a < b"
    then have "b \<le> a" by simp
    then have "pow2 b \<le> pow2 a"
      unfolding pow2_powi by (intro power_int_increasing) auto
    with \<open>pow2 a < pow2 b\<close> show False by simp
  qed
next
  assume "a < b"
  then show "pow2 a < pow2 b"
    unfolding pow2_powi by (intro power_int_strict_increasing) auto
qed

lemma pow2_le_iff: "pow2 a \<le> pow2 b \<longleftrightarrow> a \<le> b"
  using pow2_less_iff [of b a] by (auto simp: not_less [symmetric])

lemma pow2_nat: "0 \<le> e \<Longrightarrow> pow2 e = of_int (2 ^ nat e)"
  by (simp add: pow2_def)

lemma bit_length_step: "0 < n \<Longrightarrow> bit_length n = Suc (bit_length (n div 2))"
  by (subst bit_length.simps) simp

lemma bit_length_bounds:
  "0 < n \<Longrightarrow> 2 ^ (bit_length n - 1) \<le> n \<and> n < 2 ^ bit_length n"
proof (induction n rule: less_induct)
  case (less n)
  show ?case
  proof (cases "n div 2 = 0")
    case True
    with less.prems have "n = 1" by auto
    then show ?thesis by (simp add: bit_length.simps)
  next
    case False
    let ?k = "bit_length (n div 2)"
    from False less.prems have "n div 2 < n" "0 < n div 2" by auto
    with less.IH have IH: "2 ^ (?k - 1) \<le> n div 2" "n div 2 < 2 ^ ?k"
      by auto
    have bl: "bit_length n = Suc ?k"
      using less.prems by (rule bit_length_step)
    have "0 < ?k"
      using \<open>0 < n div 2\<close> by (simp add: bit_length_step)
    then have pw: "(2::nat) ^ ?k = 2 * 2 ^ (?k - 1)"
      by (cases ?k) auto
    have "2 * (n div 2) \<le> n" "n < 2 * (n div 2) + 2" by presburger+
    with IH pw have "2 ^ ?k \<le> n" "n < 2 * 2 ^ ?k" by linarith+
    with bl show ?thesis by simp
  qed
qed


lemma ilog2_lower:
  assumes "0 < a"
  shows "pow2 (ilog2 a) \<le> a"
proof (cases "1 \<le> a")
  case True
  let ?n = "nat \<lfloor>a\<rfloor>"
  from True have fl: "1 \<le> \<lfloor>a\<rfloor>" by simp
  then have n: "0 < ?n" by simp
  then have b: "2 ^ (bit_length ?n - 1) \<le> ?n"
    using bit_length_bounds by blast
  from n have "0 < bit_length ?n" by (simp add: bit_length_step)
  then have "ilog2 a = int (bit_length ?n - 1)"
    using True by (simp add: ilog2_def)
  then have "pow2 (ilog2 a) = of_nat (2 ^ (bit_length ?n - 1))"
    by (simp add: pow2_def)
  also have "\<dots> \<le> of_nat ?n"
    using b of_nat_le_iff by blast
  also have "\<dots> = of_int \<lfloor>a\<rfloor>"
    using fl by simp
  also have "\<dots> \<le> a" by simp
  finally show ?thesis .
next
  case False
  define c where "c = \<lceil>1 / a\<rceil>"
  define n where "n = nat (c - 1)"
  from False assms have "1 < 1 / a" by (simp add: field_simps)
  then have c: "2 \<le> c" by (simp add: c_def le_ceiling_iff)
  then have n: "0 < n" by (simp add: n_def)
  then have "n < 2 ^ bit_length n"
    using bit_length_bounds by blast
  then have "n + 1 \<le> 2 ^ bit_length n"
    by (rule Suc_leI [simplified Suc_eq_plus1])
  then have le: "(of_nat (n + 1) :: rat) \<le> of_nat (2 ^ bit_length n)"
    using of_nat_le_iff by blast
  have "int (n + 1) = c"
    using c by (simp add: n_def)
  then have eq: "(of_nat (n + 1) :: rat) = of_int c"
    by (metis of_int_of_nat_eq)
  have "1 / a \<le> of_int c" by (simp add: c_def)
  also have "\<dots> = of_nat (n + 1)" by (simp only: eq)
  also have "\<dots> \<le> of_nat (2 ^ bit_length n)" by (rule le)
  also have "\<dots> = 2 ^ bit_length n" by simp
  finally have "1 / a \<le> 2 ^ bit_length n" .
  then have "1 / 2 ^ bit_length n \<le> a"
    using assms by (simp add: field_simps)
  moreover have "pow2 (ilog2 a) = 1 / 2 ^ bit_length n"
    using False by (simp add: ilog2_def pow2_def n_def c_def)
  ultimately show ?thesis by simp
qed

lemma round_half_even_of_int: "round_half_even (of_int n) = n"
  by (simp add: round_half_even_def)

lemma nearest_double_exact:
  assumes q: "q = of_int m * pow2 p" and m: "\<bar>m\<bar> < 2 ^ 53" and p: "- 1074 \<le> p"
  shows "nearest_double q = q"
proof (cases "q = 0")
  case True
  then show ?thesis by (simp add: nearest_double_def)
next
  case False
  define a where "a = \<bar>q\<bar>"
  define p' where "p' = max (ilog2 a - 52) (- 1074)"
  from False have apos: "0 < a" by (simp add: a_def)
  have a: "a = of_int \<bar>m\<bar> * pow2 p"
    using q pow2_pos [of p] by (simp add: a_def abs_mult)
  have "of_int \<bar>m\<bar> < (2 ^ 53 :: rat)"
    using m by (metis of_int_less_iff of_int_numeral of_int_power)
  then have "a < 2 ^ 53 * pow2 p"
    using pow2_pos [of p] by (simp add: a)
  also have "(2 ^ 53 :: rat) = pow2 53"
    by (simp add: pow2_def)
  also have "pow2 53 * pow2 p = pow2 (53 + p)"
    by (simp add: pow2_add)
  finally have "pow2 (ilog2 a) < pow2 (53 + p)"
    using ilog2_lower [OF apos] by simp
  then have "ilog2 a < 53 + p" by (simp add: pow2_less_iff)
  with p have le: "p' \<le> p" by (simp add: p'_def)
  define d where "d = nat (p - p')"
  have "p = int d + p'"
    using le by (simp add: d_def)
  then have "pow2 p = pow2 (int d) * pow2 p'"
    by (simp only: pow2_add)
  moreover have "pow2 (int d) = of_int (2 ^ d)"
    by (simp add: pow2_def)
  ultimately have split: "pow2 p = of_int (2 ^ d) * pow2 p'"
    by simp
  have "pow2 p' \<noteq> 0"
    using pow2_pos [of p'] by simp
  then have "a / pow2 p' = of_int (\<bar>m\<bar> * 2 ^ d)"
    by (simp add: a split)
  then have r: "round_half_even (a / pow2 p') = \<bar>m\<bar> * 2 ^ d"
    by (simp only: round_half_even_of_int)
  have "nearest_double q = sgn q * of_int (round_half_even (a / pow2 p')) * pow2 p'"
    using False by (simp add: nearest_double_def Let_def a_def p'_def)
  also have "\<dots> = sgn q * (of_int (\<bar>m\<bar> * 2 ^ d) * pow2 p')"
    by (simp only: r mult.assoc)
  also have "of_int (\<bar>m\<bar> * 2 ^ d) * pow2 p' = a"
    by (simp add: a split)
  also have "sgn q * a = q" by (simp add: a_def sgn_mult_abs)
  finally show ?thesis .
qed
lemma abs_round_half_even: "\<bar>of_int (round_half_even x) - x\<bar> \<le> 1 / 2"
proof -
  have "of_int \<lfloor>x\<rfloor> \<le> x" "x < of_int \<lfloor>x\<rfloor> + 1" by linarith+
  then show ?thesis
    by (auto simp: round_half_even_def Let_def abs_le_iff)
qed

lemma nearest_double_error:
  assumes "q \<noteq> 0"
  shows "\<bar>nearest_double q - q\<bar> \<le> pow2 (max (ilog2 \<bar>q\<bar> - 52) (- 1074)) / 2"
proof -
  define p where "p = max (ilog2 \<bar>q\<bar> - 52) (- 1074)"
  define x where "x = \<bar>q\<bar> / pow2 p"
  have pp: "0 < pow2 p" by (rule pow2_pos)
  have nd: "nearest_double q = sgn q * (of_int (round_half_even x) * pow2 p)"
    using assms by (simp add: nearest_double_def Let_def p_def x_def)
  have "q = sgn q * (x * pow2 p)"
    using pp by (simp add: x_def sgn_mult_abs)
  then have "nearest_double q - q = sgn q * ((of_int (round_half_even x) - x) * pow2 p)"
    by (simp add: nd algebra_simps)
  then have "\<bar>nearest_double q - q\<bar> = \<bar>of_int (round_half_even x) - x\<bar> * pow2 p"
    using assms pp by (simp add: abs_mult abs_sgn_eq)
  also have "\<dots> \<le> (1 / 2) * pow2 p"
    using abs_round_half_even [of x] pp by (intro mult_right_mono) auto
  finally show ?thesis by (simp add: p_def)
qed

lemma to_double_error: "to_double q = Inl e \<Longrightarrow> e = OverflowError"
  by (simp add: to_double_def Let_def split: if_splits)

lemma divide_zero_iff: "divide val arg = Inl ZeroDivisionError \<longleftrightarrow> arg = 0"
  using to_double_error [of "of_int val / of_int arg" ZeroDivisionError]
  by (auto simp: divide_def int_truediv_def)

lemma to_double_exact:
  assumes "q = of_int m * pow2 p" "\<bar>m\<bar> < 2 ^ 53" "- 1074 \<le> p" "\<bar>q\<bar> < pow2 1024"
  shows "to_double q = Inr q"
  using nearest_double_exact [OF assms(1-3)] assms(4) by (simp add: to_double_def)

lemma divide_exact:
  assumes "arg \<noteq> 0" "of_int val / of_int arg = of_int m * pow2 p"
    "\<bar>m\<bar> < 2 ^ 53" "- 1074 \<le> p" "\<bar>of_int val / of_int arg :: rat\<bar> < pow2 1024"
  shows "divide val arg = Inr (of_int val / of_int arg)"
  using to_double_exact [OF assms(2-5)] assms(1) by (simp add: divide_def int_truediv_def)

lemma divide_integer:
  assumes "arg \<noteq> 0" "arg dvd val" "\<bar>val div arg\<bar> < 2 ^ 53"
  shows "divide val arg = Inr (of_int (val div arg))"
proof -
  from assms(2) obtain k where k: "val = arg * k" ..
  have q: "(of_int val / of_int arg :: rat) = of_int (val div arg)"
    using assms(1) by (simp add: k)
  have rep: "(of_int val / of_int arg :: rat) = of_int (val div arg) * pow2 0"
    by (simp add: q pow2_def)
  have "\<bar>of_int (val div arg) :: rat\<bar> = of_int \<bar>val div arg\<bar>" by simp
  also have "\<dots> < of_int (2 ^ 53)" using assms(3) of_int_less_iff by blast
  also have "\<dots> \<le> pow2 1024" by (simp add: pow2_def)
  finally have bound: "\<bar>of_int val / of_int arg :: rat\<bar> < pow2 1024"
    by (simp only: q)
  have "divide val arg = Inr (of_int val / of_int arg)"
    by (rule divide_exact [OF assms(1) rep assms(3) _ bound]) simp
  then show ?thesis by (simp only: q)
qed

lemma divide_overflow: "divide (2 ^ 1024) 1 = Inl OverflowError"
proof -
  have "(2 ^ 1024 :: rat) = of_int 1 * pow2 1024" by (simp add: pow2_def)
  then have "nearest_double (2 ^ 1024) = 2 ^ 1024"
    by (rule nearest_double_exact) simp_all
  then show ?thesis
    by (simp add: divide_def int_truediv_def to_double_def pow2_def)
qed

lemma divide_50_2: "divide 50 2 = Inr 25"
  using divide_integer [of 2 50] by simp

lemma pow2_neg_nat: "pow2 (- int j) = 1 / 2 ^ j"
  by (cases j) (simp_all add: pow2_def nat_add_distrib)

lemma ilog2_upper:
  assumes "0 < a"
  shows "a < pow2 (ilog2 a + 1)"
proof (cases "1 \<le> a")
  case True
  define n where "n = nat \<lfloor>a\<rfloor>"
  from True have fl: "1 \<le> \<lfloor>a\<rfloor>" by simp
  then have n: "0 < n" by (simp add: n_def)
  then have b: "n + 1 \<le> 2 ^ bit_length n"
    using bit_length_bounds Suc_leI [simplified Suc_eq_plus1] by blast
  have "int (n + 1) = \<lfloor>a\<rfloor> + 1"
    using fl by (simp add: n_def)
  then have eq: "(of_nat (n + 1) :: rat) = of_int (\<lfloor>a\<rfloor> + 1)"
    by (metis of_int_of_nat_eq)
  from n have "0 < bit_length n" by (simp add: bit_length_step)
  then have il: "ilog2 a + 1 = int (bit_length n)"
    using True by (simp add: ilog2_def n_def)
  have "a < of_int (\<lfloor>a\<rfloor> + 1)" by linarith
  also have "\<dots> = of_nat (n + 1)" by (simp only: eq)
  also have "\<dots> \<le> of_nat (2 ^ bit_length n)"
    using b of_nat_le_iff by blast
  also have "\<dots> = pow2 (ilog2 a + 1)"
    by (simp add: il pow2_def)
  finally show ?thesis .
next
  case False
  define c where "c = \<lceil>1 / a\<rceil>"
  define n where "n = nat (c - 1)"
  define k where "k = bit_length n"
  from False assms have "1 < 1 / a" by (simp add: field_simps)
  then have c: "2 \<le> c" by (simp add: c_def le_ceiling_iff)
  then have n: "0 < n" by (simp add: n_def)
  then have b: "2 ^ (k - 1) \<le> n"
    using bit_length_bounds k_def by blast
  from n have kpos: "0 < k" by (simp add: k_def bit_length_step)
  have "int n = c - 1" using c by (simp add: n_def)
  then have eq: "(of_nat n :: rat) = of_int (c - 1)"
    by (metis of_int_of_nat_eq)
  have "(2 :: rat) ^ (k - 1) = of_nat (2 ^ (k - 1))" by simp
  also have "\<dots> \<le> of_nat n" using b of_nat_le_iff by blast
  also have "\<dots> = of_int (c - 1)" by (simp only: eq)
  also have "\<dots> < 1 / a" unfolding c_def by linarith
  finally have "2 ^ (k - 1) < 1 / a" .
  then have "a < 1 / 2 ^ (k - 1)"
    using assms by (simp add: field_simps)
  moreover have "ilog2 a + 1 = - int (k - 1)"
    using False kpos by (simp add: ilog2_def k_def n_def c_def)
  then have "pow2 (ilog2 a + 1) = 1 / 2 ^ (k - 1)"
    by (simp only: pow2_neg_nat)
  ultimately show ?thesis by simp
qed

lemma nearest_double_relative:
  assumes "pow2 (- 1022) \<le> \<bar>q\<bar>"
  shows "\<bar>nearest_double q - q\<bar> \<le> \<bar>q\<bar> / 2 ^ 53"
proof -
  define a where "a = \<bar>q\<bar>"
  define e where "e = ilog2 a"
  have apos: "0 < a"
    using assms pow2_pos [of "- 1022"] by (simp add: a_def)
  then have "q \<noteq> 0" by (auto simp: a_def)
  have "pow2 (- 1022) < pow2 (e + 1)"
    using assms ilog2_upper [OF apos] by (simp add: a_def e_def)
  then have "- 1022 \<le> e" by (simp add: pow2_less_iff)
  then have "max (e - 52) (- 1074) = e - 52" by simp
  then have "\<bar>nearest_double q - q\<bar> \<le> pow2 (e - 52) / 2"
    using nearest_double_error [OF \<open>q \<noteq> 0\<close>] by (simp add: a_def e_def)
  also have "pow2 (e - 52) = pow2 e * pow2 (- 52)"
    using pow2_add [of e "- 52"] by simp
  also have "\<dots> / 2 = pow2 e / 2 ^ 53"
    by (simp add: pow2_def)
  also have "\<dots> \<le> a / 2 ^ 53"
    using ilog2_lower [OF apos] by (simp add: e_def divide_right_mono)
  finally show ?thesis by (simp add: a_def)
qed

lemma nearest_double_bound:
  assumes "q \<noteq> 0"
  shows "\<bar>nearest_double q\<bar> \<le> \<bar>q\<bar> + max \<bar>q\<bar> 1 / 2"
proof -
  define a where "a = \<bar>q\<bar>"
  define e where "e = ilog2 a"
  have apos: "0 < a" using assms by (simp add: a_def)
  have "pow2 (e - 52) \<le> pow2 e" by (simp add: pow2_le_iff)
  also have "\<dots> \<le> a" using ilog2_lower [OF apos] by (simp add: e_def)
  finally have 1: "pow2 (e - 52) \<le> max a 1" by simp
  have "pow2 (- 1074) \<le> pow2 0" by (simp add: pow2_le_iff)
  also have "\<dots> = 1" by (simp add: pow2_def)
  finally have 2: "pow2 (- 1074) \<le> max a 1" by simp
  have "pow2 (max (e - 52) (- 1074)) \<le> max a 1"
  proof (cases "e - 52 \<le> - 1074")
    case True
    then have "max (e - 52) (- 1074) = - 1074" by (rule max_absorb2)
    with 2 show ?thesis by (simp only:)
  next
    case False
    then have "max (e - 52) (- 1074) = e - 52" by (intro max_absorb1) simp
    with 1 show ?thesis by (simp only:)
  qed
  then have "\<bar>nearest_double q - q\<bar> \<le> max a 1 / 2"
    using nearest_double_error [OF assms] by (simp add: a_def e_def)
  then have "\<bar>nearest_double q\<bar> - \<bar>q\<bar> \<le> max a 1 / 2"
    using abs_triangle_ineq2 [of "nearest_double q" q] by linarith
  then show ?thesis by (simp add: a_def)
qed

lemma divide_returns:
  assumes "arg \<noteq> 0" "\<bar>of_int val / of_int arg :: rat\<bar> < pow2 1023"
  shows "divide val arg = Inr (nearest_double (of_int val / of_int arg))"
proof -
  define q :: rat where "q = of_int val / of_int arg"
  have p: "pow2 1024 = 2 * pow2 1023" "1 \<le> pow2 1023"
    by (simp_all add: pow2_def)
  have "\<bar>nearest_double q\<bar> < pow2 1024"
  proof (cases "q = 0")
    case True
    then show ?thesis using pow2_pos [of 1024] by (simp add: nearest_double_def)
  next
    case False
    have less: "\<bar>q\<bar> < pow2 1023"
      using assms(2) by (simp only: q_def)
    with p(2) have "max \<bar>q\<bar> 1 \<le> pow2 1023" by simp
    with less have "\<bar>q\<bar> + max \<bar>q\<bar> 1 / 2 < 2 * pow2 1023" by linarith
    with nearest_double_bound [OF False] p(1) show ?thesis by linarith
  qed
  then show ?thesis
    using assms(1) by (simp add: divide_def int_truediv_def to_double_def q_def)
qed

section \<open>Facts about \<^verbatim>\<open>timesince_simple\<close>\<close>

lemma timesince_simple_zero:
  "timedelta_days t2 t1 = 0 \<Longrightarrow> timesince_simple now t1 (Some t2) = Inr None"
  by (simp add: timesince_simple_def)

lemma timesince_simple_never_today:
  "timesince_simple now t1 t2 \<noteq> Inr (Some ''today'')"
  by (auto simp: timesince_simple_def Let_def split: sum.splits option.splits)

lemma nearest_double_floor:
  fixes a b :: int
  assumes a: "0 \<le> a" "a < 2 ^ 53" and b: "0 < b" "b < 2 ^ 53"
  shows "\<lfloor>nearest_double (of_int a / of_int b)\<rfloor> = a div b"
proof (cases "b dvd a")
  case True
  then obtain k where k: "a = b * k" ..
  with a b have "0 \<le> k" by (simp add: zero_le_mult_iff)
  have "k \<le> a" using k b \<open>0 \<le> k\<close> by (simp add: mult_le_cancel_right1) 
  then have "\<bar>k\<bar> < 2 ^ 53" using a \<open>0 \<le> k\<close> by simp
  have q: "(of_int a / of_int b :: rat) = of_int k * pow2 0"
    using b by (simp add: k pow2_def)
  then have "nearest_double (of_int a / of_int b) = of_int a / of_int b"
    using \<open>\<bar>k\<bar> < 2 ^ 53\<close> by (intro nearest_double_exact [where m = k and p = 0]) simp_all
  then show ?thesis using b by (simp add: floor_divide_of_int_eq)
next
  case False
  define q :: rat where "q = of_int a / of_int b"
  define r where "r = a mod b"
  define z where "z = a div b"
  have "0 \<le> a mod b" "a mod b < b"
    using b(1) by simp_all
  moreover have "a mod b \<noteq> 0"
    using False by (simp add: dvd_eq_mod_eq_0)
  ultimately have r: "1 \<le> r" "r \<le> b - 1"
    unfolding r_def by linarith+
  have bpos: "(0 :: rat) < of_int b" using b by simp
  have "a = z * b + r" by (simp add: z_def r_def)
  then have "(of_int a :: rat) = of_int z * of_int b + of_int r"
    by (metis of_int_add of_int_mult)
  then have qz: "q = of_int z + of_int r / of_int b"
    using bpos by (simp add: q_def field_simps)
  have "(1 :: rat) \<le> of_int r" using r(1) by simp
  then have "1 / of_int b \<le> of_int r / (of_int b :: rat)"
    using bpos by (intro divide_right_mono) simp_all
  then have lo: "of_int z + 1 / of_int b \<le> q"
    by (simp add: qz)
  have "(of_int r :: rat) \<le> of_int b - 1" using r(2) by (metis of_int_le_iff of_int_diff of_int_1)
  then have "of_int r / of_int b \<le> (of_int b - 1) / (of_int b :: rat)"
    using bpos by (intro divide_right_mono) simp_all
  also have "\<dots> = 1 - 1 / of_int b"
    using bpos by (simp add: diff_divide_distrib)
  finally have hi: "q \<le> of_int z + 1 - 1 / of_int b"
    by (simp add: qz)
  have "0 < a" using False a by (cases "a = 0") auto
  then have qpos: "0 < q" using bpos by (simp add: q_def)
  have "(of_int a :: rat) < 2 ^ 53"
    using a(2) by (metis of_int_less_iff of_int_numeral of_int_power)
  then have "of_int a / 2 ^ 53 < (1 :: rat)"
    by simp
  then have "of_int a / 2 ^ 53 / of_int b < 1 / (of_int b :: rat)"
    using bpos by (rule divide_strict_right_mono)
  then have small: "q / 2 ^ 53 < 1 / of_int b"
    by (simp add: q_def)
  have "(of_int b :: rat) < 2 ^ 53"
    using b(2) by (metis of_int_less_iff of_int_numeral of_int_power)
  then have "1 / 2 ^ 53 < 1 / (of_int b :: rat)"
    using bpos by (simp add: field_simps)
  moreover have "pow2 (- 1022) \<le> 1 / 2 ^ 53"
    by (simp add: pow2_def)
  moreover have "0 \<le> z"
    unfolding z_def using a(1) b(1) by (simp add: pos_imp_zdiv_nonneg_iff)
  then have "(0 :: rat) \<le> of_int z" by simp
  then have "1 / of_int b \<le> q"
    using lo by linarith
  moreover have "\<bar>q\<bar> = q" using qpos by simp
  ultimately have "pow2 (- 1022) \<le> \<bar>q\<bar>" by linarith
  then have "\<bar>nearest_double q - q\<bar> \<le> \<bar>q\<bar> / 2 ^ 53"
    by (rule nearest_double_relative)
  moreover have "\<bar>q\<bar> = q" using qpos by simp
  ultimately have "\<bar>nearest_double q - q\<bar> < 1 / of_int b"
    using small by linarith
  then have "q - 1 / of_int b < nearest_double q" "nearest_double q < q + 1 / of_int b"
    by (simp_all add: abs_less_iff)
  with lo hi have "of_int z \<le> nearest_double q" "nearest_double q < of_int z + 1"
    by linarith+
  then have "\<lfloor>nearest_double q\<rfloor> = z" by (simp add: floor_unique)
  then show ?thesis by (simp add: q_def z_def)
qed

lemma float_to_int_nearest_double:
  fixes a b :: int
  assumes "0 \<le> a" "a < 2 ^ 53" "0 < b" "b < 2 ^ 53"
  shows "float_to_int (nearest_double (of_int a / of_int b)) = a div b"
proof -
  let ?x = "nearest_double (of_int a / of_int b)"
  have fl: "\<lfloor>?x\<rfloor> = a div b"
    using assms by (rule nearest_double_floor)
  have "0 \<le> a div b"
    using assms(1,3) by (simp add: pos_imp_zdiv_nonneg_iff)
  with fl have "0 \<le> \<lfloor>?x\<rfloor>" by simp
  then have "0 \<le> ?x" by simp
  with fl show ?thesis by (simp add: float_to_int_def)
qed

lemma int_truediv_small:
  fixes a b :: int
  assumes "0 \<le> a" "a < 2 ^ 53" "0 < b"
  shows "int_truediv a b = Inr (nearest_double (of_int a / of_int b))"
proof -
  have "(1 :: rat) \<le> of_int b" using assms(3) by simp
  then have "(of_int a :: rat) / of_int b \<le> of_int a / 1"
    using assms(1) by (intro divide_left_mono) simp_all
  also have "\<dots> < 2 ^ 53"
    using assms(2) by (metis div_by_1 of_int_less_iff of_int_numeral of_int_power)
  also have "(2 ^ 53 :: rat) \<le> pow2 1023" by (simp add: pow2_def)
  finally have "(of_int a :: rat) / of_int b < pow2 1023" .
  moreover have "(0 :: rat) \<le> of_int a / of_int b"
    using assms(1,3) by simp
  ultimately have "\<bar>of_int a / of_int b :: rat\<bar> < pow2 1023" by simp
  with assms(3) have "divide a b = Inr (nearest_double (of_int a / of_int b))"
    by (intro divide_returns) simp_all
  then show ?thesis by (simp add: divide_def)
qed

lemma int_to_float_small:
  assumes "\<bar>i\<bar> < 2 ^ 53"
  shows "int_to_float i = Inr (of_int i)"
proof -
  have "(of_int i :: rat) = of_int i * pow2 0" by (simp add: pow2_def)
  moreover have "\<bar>of_int i :: rat\<bar> < pow2 1024"
  proof -
    have "\<bar>of_int i :: rat\<bar> = of_int \<bar>i\<bar>" by simp
    also have "\<dots> < of_int (2 ^ 53)" using assms of_int_less_iff by blast
    also have "\<dots> \<le> pow2 1024" by (simp add: pow2_def)
    finally show ?thesis .
  qed
  ultimately have "to_double (of_int i) = Inr (of_int i)"
    using assms by (intro to_double_exact [where m = i and p = 0]) simp_all
  then show ?thesis by (simp add: int_to_float_def)
qed

lemma timesince_simple_phrases:
  assumes d: "d = timedelta_days t2 t1" and nz: "d \<noteq> 0"
  shows "d < 7 \<Longrightarrow> timesince_simple now t1 (Some t2) = Inr (Some (show_int d @ '' days''))"
    and "7 \<le> d \<Longrightarrow> d < 14 \<Longrightarrow> timesince_simple now t1 (Some t2) = Inr (Some ''one week'')"
    and "14 \<le> d \<Longrightarrow> d < 30 \<Longrightarrow>
         timesince_simple now t1 (Some t2) = Inr (Some (show_int (d div 7) @ '' weeks''))"
    and "30 \<le> d \<Longrightarrow> d < 60 \<Longrightarrow> timesince_simple now t1 (Some t2) = Inr (Some ''one month'')"
    and "60 \<le> d \<Longrightarrow> d < 365 \<Longrightarrow>
         timesince_simple now t1 (Some t2) = Inr (Some (show_int (d div 30) @ '' months''))"
    and "365 \<le> d \<Longrightarrow> d < 730 \<Longrightarrow> timesince_simple now t1 (Some t2) = Inr (Some ''one year'')"
    and "730 \<le> d \<Longrightarrow> d < 2 ^ 51 \<Longrightarrow>
         timesince_simple now t1 (Some t2)
           = Inr (Some (show_int (d * 4 div 1461) @ '' years''))"
proof -
  show "timesince_simple now t1 (Some t2) = Inr (Some (show_int d @ '' days''))" if "d < 7"
    using that nz by (simp add: timesince_simple_def d [symmetric])
  show "timesince_simple now t1 (Some t2) = Inr (Some ''one week'')" if "7 \<le> d" "d < 14"
    using that by (simp add: timesince_simple_def d [symmetric])
  show "timesince_simple now t1 (Some t2) = Inr (Some ''one month'')" if "30 \<le> d" "d < 60"
    using that by (simp add: timesince_simple_def d [symmetric])
  show "timesince_simple now t1 (Some t2) = Inr (Some ''one year'')" if "365 \<le> d" "d < 730"
    using that by (simp add: timesince_simple_def d [symmetric])
  show "timesince_simple now t1 (Some t2) = Inr (Some (show_int (d div 7) @ '' weeks''))"
    if "14 \<le> d" "d < 30"
  proof -
    from that have r: "0 \<le> d" "d < 2 ^ 53" by simp_all
    have "int_truediv d 7 = Inr (nearest_double (of_int d / of_int 7))"
      using r by (rule int_truediv_small) simp
    moreover have "float_to_int (nearest_double (of_int d / of_int 7)) = d div 7"
      using r by (rule float_to_int_nearest_double) simp_all
    ultimately show ?thesis
      using that by (simp add: timesince_simple_def d [symmetric])
  qed
  show "timesince_simple now t1 (Some t2) = Inr (Some (show_int (d div 30) @ '' months''))"
    if "60 \<le> d" "d < 365"
  proof -
    from that have r: "0 \<le> d" "d < 2 ^ 53" by simp_all
    have "int_truediv d 30 = Inr (nearest_double (of_int d / of_int 30))"
      using r by (rule int_truediv_small) simp
    moreover have "float_to_int (nearest_double (of_int d / of_int 30)) = d div 30"
      using r by (rule float_to_int_nearest_double) simp_all
    ultimately show ?thesis
      using that by (simp add: timesince_simple_def d [symmetric])
  qed
  show "timesince_simple now t1 (Some t2)
           = Inr (Some (show_int (d * 4 div 1461) @ '' years''))"
    if "730 \<le> d" "d < 2 ^ 51"
  proof -
    from that have "\<bar>d\<bar> < 2 ^ 53" by simp
    then have f: "int_to_float d = Inr (of_int d)" by (rule int_to_float_small)
    from that have r: "0 \<le> d * 4" "d * 4 < 2 ^ 53" by simp_all
    have "(of_int d :: rat) / (1461 / 4) = of_int (d * 4) / of_int 1461" by simp
    moreover have "float_to_int (nearest_double (of_int (d * 4) / of_int 1461)) = d * 4 div 1461"
      using r by (rule float_to_int_nearest_double) simp_all
    ultimately have "float_to_int (nearest_double (of_int d / (1461 / 4))) = d * 4 div 1461"
      by (simp only:)
    with f show ?thesis
      using that by (simp add: timesince_simple_def d [symmetric])
  qed
qed

lemma round_half_even_floor: "\<lfloor>x\<rfloor> \<le> round_half_even x"
  by (simp add: round_half_even_def Let_def)

lemma round_half_even_ge_int: "of_int n \<le> x \<Longrightarrow> n \<le> round_half_even x"
  using round_half_even_floor [of x] le_floor_iff [of n x] by linarith

lemma round_half_even_ge_even:
  assumes "even n"
  shows "n \<le> round_half_even x \<longleftrightarrow> of_int n - 1 / 2 \<le> x"
proof
  define f where "f = \<lfloor>x\<rfloor>"
  have fx: "of_int f \<le> x" by (simp add: f_def)
  assume n: "n \<le> round_half_even x"
  show "of_int n - 1 / 2 \<le> x"
  proof (cases "x - of_int f < 1 / 2")
    case True
    then have "round_half_even x = f"
      by (simp add: round_half_even_def Let_def f_def)
    with n have "n \<le> f" by simp
    then have "(of_int n :: rat) \<le> of_int f" by simp
    with fx show ?thesis by linarith
  next
    case False
    have "round_half_even x \<le> f + 1"
      by (simp add: round_half_even_def Let_def f_def)
    with n have "n \<le> f + 1" by simp
    then have "(of_int n :: rat) \<le> of_int (f + 1)" by (simp only: of_int_le_iff)
    then have "(of_int n :: rat) \<le> of_int f + 1" by simp
    with False show ?thesis by linarith
  qed
next
  define f where "f = \<lfloor>x\<rfloor>"
  assume x: "of_int n - 1 / 2 \<le> x"
  have "(of_int (n - 1) :: rat) \<le> x" using x by simp
  then have f: "n - 1 \<le> f" by (simp only: f_def le_floor_iff)
  show "n \<le> round_half_even x"
  proof (cases "n \<le> f")
    case True
    with round_half_even_floor [of x] show ?thesis by (simp add: f_def)
  next
    case False
    with f have eq: "f = n - 1" by simp
    then have odd: "odd f" using assms by simp
    have "(of_int f :: rat) = of_int n - 1" by (simp add: eq)
    with x have "\<not> x - of_int f < 1 / 2" by linarith
    with odd have "round_half_even x = f + 1"
      by (simp add: round_half_even_def Let_def f_def)
    with eq show ?thesis by simp
  qed
qed

lemma abs_nearest_double:
  assumes "q \<noteq> 0"
  shows "\<bar>nearest_double q\<bar>
     = of_int (round_half_even (\<bar>q\<bar> / pow2 (max (ilog2 \<bar>q\<bar> - 52) (- 1074))))
         * pow2 (max (ilog2 \<bar>q\<bar> - 52) (- 1074))"
proof -
  define p where "p = max (ilog2 \<bar>q\<bar> - 52) (- 1074)"
  define x where "x = \<bar>q\<bar> / pow2 p"
  have pp: "0 < pow2 p" by (rule pow2_pos)
  then have "0 \<le> x" by (simp add: x_def)
  then have "(of_int 0 :: rat) \<le> x" by simp
  then have "0 \<le> round_half_even x" by (rule round_half_even_ge_int)
  then have r: "(0 :: rat) \<le> of_int (round_half_even x)" by simp
  have "nearest_double q = sgn q * (of_int (round_half_even x) * pow2 p)"
    using assms by (simp add: nearest_double_def Let_def p_def x_def)
  then have "\<bar>nearest_double q\<bar> = \<bar>of_int (round_half_even x) * pow2 p\<bar>"
    using assms by (simp add: abs_mult abs_sgn_eq)
  also have "\<dots> = of_int (round_half_even x) * pow2 p"
    using r pp by (simp add: abs_mult)
  finally show ?thesis by (simp only: x_def p_def)
qed

lemma nearest_double_overflow_iff:
  "pow2 1024 \<le> \<bar>nearest_double q\<bar> \<longleftrightarrow> pow2 1024 - pow2 970 \<le> \<bar>q\<bar>"
proof -
  define a where "a = \<bar>q\<bar>"
  define e where "e = ilog2 a"
  have p1024: "pow2 1024 = 2 * pow2 1023"
    using pow2_add [of 1 1023] by (simp add: pow2_def)
  have p1023: "pow2 1023 = 2 ^ 53 * pow2 970"
    using pow2_add [of 53 970] by (simp add: pow2_def)
  have p971: "pow2 971 = 2 * pow2 970"
    using pow2_add [of 1 970] by (simp add: pow2_def)
  have pos: "0 < pow2 970" by (rule pow2_pos)
  have thr: "pow2 1023 < pow2 1024 - pow2 970" "0 < pow2 1024 - pow2 970"
    using pos by (simp_all add: p1024 p1023)
  consider "a < pow2 1023" | "pow2 1023 \<le> a" "a < pow2 1024" | "pow2 1024 \<le> a"
    by linarith
  then show ?thesis
  proof cases
    case 1
    have one: "1 \<le> pow2 1023"
      using pow2_le_iff [of 0 1023] by (simp add: pow2_def)
    have "\<bar>nearest_double q\<bar> < pow2 1024"
    proof (cases "q = 0")
      case True
      then show ?thesis using pow2_pos [of 1024] by (simp add: nearest_double_def)
    next
      case False
      from 1 one have "max \<bar>q\<bar> 1 \<le> pow2 1023" by (simp add: a_def)
      with 1 have "\<bar>q\<bar> + max \<bar>q\<bar> 1 / 2 < 2 * pow2 1023" by (simp add: a_def)
      with nearest_double_bound [OF False] p1024 show ?thesis by linarith
    qed
    moreover have "\<not> pow2 1024 - pow2 970 \<le> a"
      using 1 thr(1) by linarith
    ultimately show ?thesis by (simp add: a_def)
  next
    case 2
    have apos: "0 < a" using 2(1) pow2_pos [of 1023] by linarith
    then have q: "q \<noteq> 0" by (auto simp: a_def)
    have "pow2 e < pow2 1024"
      using ilog2_lower [OF apos] 2(2) by (simp add: e_def)
    then have "e < 1024" by (simp only: pow2_less_iff)
    moreover have "pow2 1023 < pow2 (e + 1)"
      using ilog2_upper [OF apos] 2(1) by (simp add: e_def)
    then have "1023 < e + 1" by (simp only: pow2_less_iff)
    ultimately have e: "e = 1023" by simp
    then have p: "max (ilog2 \<bar>q\<bar> - 52) (- 1074) = 971"
      by (simp add: e_def a_def)
    define x where "x = a / pow2 971"
    have nd: "\<bar>nearest_double q\<bar> = of_int (round_half_even x) * pow2 971"
      using abs_nearest_double [OF q] by (simp only: p x_def a_def)
    have pp: "0 < pow2 971" by (rule pow2_pos)
    have big: "pow2 1024 = of_int (2 ^ 53) * pow2 971"
      using pow2_add [of 53 971] by (simp add: pow2_def)
    have "pow2 1024 \<le> \<bar>nearest_double q\<bar>
        \<longleftrightarrow> (of_int (2 ^ 53) :: rat) \<le> of_int (round_half_even x)"
      using pp by (simp only: nd big mult_le_cancel_right_pos)
    also have "\<dots> \<longleftrightarrow> (2 ^ 53 :: int) \<le> round_half_even x"
      by (simp only: of_int_le_iff)
    also have "\<dots> \<longleftrightarrow> of_int (2 ^ 53) - 1 / 2 \<le> x"
      by (rule round_half_even_ge_even) simp
    also have "\<dots> \<longleftrightarrow> (of_int (2 ^ 53) - 1 / 2) * pow2 971 \<le> a"
      using pp by (simp only: x_def pos_le_divide_eq)
    also have "(of_int (2 ^ 53) - 1 / 2) * pow2 971 = pow2 1024 - pow2 970"
      by (simp add: big p971 algebra_simps)
    finally show ?thesis by (simp only: a_def)
  next
    case 3
    have apos: "0 < a" using 3 pow2_pos [of 1024] by linarith
    then have q: "q \<noteq> 0" by (auto simp: a_def)
    have "pow2 1024 < pow2 (e + 1)"
      using ilog2_upper [OF apos] 3 by (simp add: e_def)
    then have e: "1024 \<le> e" by (simp add: pow2_less_iff)
    then have p: "max (ilog2 \<bar>q\<bar> - 52) (- 1074) = e - 52"
      by (simp add: e_def a_def)
    define x where "x = a / pow2 (e - 52)"
    have nd: "\<bar>nearest_double q\<bar> = of_int (round_half_even x) * pow2 (e - 52)"
      using abs_nearest_double [OF q] by (simp only: p x_def a_def)
    have pp: "0 < pow2 (e - 52)" by (rule pow2_pos)
    have split: "pow2 e = of_int (2 ^ 52) * pow2 (e - 52)"
      using pow2_add [of 52 "e - 52"] by (simp add: pow2_def)
    have "of_int (2 ^ 52) * pow2 (e - 52) \<le> a"
      using ilog2_lower [OF apos] split by (simp only: e_def)
    then have "of_int (2 ^ 52) \<le> x"
      using pp by (simp only: x_def pos_le_divide_eq)
    then have "2 ^ 52 \<le> round_half_even x" by (rule round_half_even_ge_int)
    then have "(of_int (2 ^ 52) :: rat) \<le> of_int (round_half_even x)"
      by (simp only: of_int_le_iff)
    then have "of_int (2 ^ 52) * pow2 (e - 52) \<le> of_int (round_half_even x) * pow2 (e - 52)"
      using pp by (simp only: mult_le_cancel_right_pos)
    then have "pow2 e \<le> \<bar>nearest_double q\<bar>"
      by (simp only: nd split)
    moreover have "pow2 1024 \<le> pow2 e"
      using e by (simp only: pow2_le_iff)
    ultimately have "pow2 1024 \<le> \<bar>nearest_double q\<bar>" by linarith
    moreover have "pow2 1024 - pow2 970 \<le> a"
      using 3 pos by linarith
    ultimately show ?thesis by (simp add: a_def)
  qed
qed

lemma divide_nonzero:
  assumes "arg \<noteq> 0"
  shows "divide val arg =
     (if pow2 1024 - pow2 970 \<le> \<bar>of_int val / of_int arg :: rat\<bar> then Inl OverflowError
      else Inr (nearest_double (of_int val / of_int arg)))"
  using assms nearest_double_overflow_iff [of "of_int val / of_int arg"]
  by (simp add: divide_def int_truediv_def to_double_def Let_def)

section \<open>Facts about \<^verbatim>\<open>sanitize\<close>\<close>

lemma build_dict_split:
  "\<exists>allowed. build_dict m (map (split_on c) ws) = Inr allowed"
proof (induction ws arbitrary: m)
  case Nil
  then show ?case by simp
next
  case (Cons w ws)
  have "split_on c w \<noteq> []" by (rule split_on_nonempty)
  then have "item (split_on c w) 0 = Inr (split_on c w ! 0)"
    by (simp add: item_def)
  with Cons show ?case by simp
qed

lemma policy_of_returns: "\<exists>allowed. policy_of allowed_tags = Inr allowed"
  unfolding policy_of_def by (rule build_dict_split)

lemma unpack2_error: "length key \<noteq> 2 \<Longrightarrow> unpack2 key = Inl ValueError"
  by (auto simp: unpack2_def split: list.splits)

lemma unpack2_pair: "length key = 2 \<Longrightarrow> \<exists>a b. unpack2 key = Inr ([a], [b])"
  by (auto simp: unpack2_def split: list.splits)

lemma new_attrs_bad:
  "list_ex (\<lambda>key. length key \<noteq> 2) keys \<Longrightarrow> new_attrs names keys = Inl ValueError"
proof (induction keys)
  case Nil
  then show ?case by simp
next
  case (Cons key keys)
  show ?case
  proof (cases "length key = 2")
    case True
    then obtain a b where "unpack2 key = Inr ([a], [b])"
      using unpack2_pair by blast
    with True Cons show ?thesis by simp
  next
    case False
    then show ?thesis by (simp add: unpack2_error)
  qed
qed

lemma new_attrs_good:
  "\<not> list_ex (\<lambda>key. length key \<noteq> 2) keys \<Longrightarrow> \<exists>pairs. new_attrs names keys = Inr pairs"
proof (induction keys)
  case Nil
  then show ?case by simp
next
  case (Cons key keys)
  then have "length key = 2" by simp
  then obtain a b where "unpack2 key = Inr ([a], [b])"
    using unpack2_pair by blast
  moreover from Cons obtain pairs where "new_attrs names keys = Inr pairs" by auto
  ultimately show ?case by simp
qed

lemma traverse_visit:
  assumes "\<forall>k\<in>set ns. visit_spec allowed k"
  shows "if list_ex (has_bad allowed) ns
         then traverse (visit allowed) ns = Inl ValueError
         else (\<exists>ms. traverse (visit allowed) ns = Inr ms
                 \<and> (\<forall>p. concat_all (map (render p) ms)
                       = (if list_ex (has_allowed allowed) ns then Inl AttributeError
                          else Inr (concat (map (written p) ns)))))"
  using assms
proof (induction ns)
  case Nil
  then show ?case by simp
next
  case (Cons n ns)
  from Cons.prems have n: "visit_spec allowed n" by simp
  from Cons have IH: "if list_ex (has_bad allowed) ns
         then traverse (visit allowed) ns = Inl ValueError
         else (\<exists>ms. traverse (visit allowed) ns = Inr ms
                 \<and> (\<forall>p. concat_all (map (render p) ms)
                       = (if list_ex (has_allowed allowed) ns then Inl AttributeError
                          else Inr (concat (map (written p) ns)))))"
    by simp
  show ?case
  proof (cases "has_bad allowed n")
    case True
    with n show ?thesis by (simp add: visit_spec_def)
  next
    case False
    with n obtain m where m: "visit allowed n = Inr m"
      and r: "\<And>p. render p m
                = (if has_allowed allowed n then Inl AttributeError else Inr (written p n))"
      by (auto simp: visit_spec_def)
    show ?thesis
    proof (cases "list_ex (has_bad allowed) ns")
      case True
      with IH m False show ?thesis by simp
    next
      case nb: False
      with IH obtain ms where ms: "traverse (visit allowed) ns = Inr ms"
        and rs: "\<And>p. concat_all (map (render p) ms)
                  = (if list_ex (has_allowed allowed) ns then Inl AttributeError
                     else Inr (concat (map (written p) ns)))"
        by auto
      have "traverse (visit allowed) (n # ns) = Inr (m # ms)"
        using m ms by simp
      moreover have "concat_all (map (render p) (m # ms))
            = (if list_ex (has_allowed allowed) (n # ns) then Inl AttributeError
               else Inr (concat (map (written p) (n # ns))))" for p
        using r [of p] rs [of p] by simp
      ultimately show ?thesis using False nb by simp
    qed
  qed
qed

lemma visit_spec_holds: "visit_spec allowed n"
proof (induction n)
  case (Tag name attrs contents)
  then have kids: "\<forall>k\<in>set contents. visit_spec allowed k" by simp
  note T = traverse_visit [OF kids]
  show ?case
  proof (cases "allowed name")
    case None
    show ?thesis
    proof (cases "list_ex (has_bad allowed) contents")
      case True
      with T None show ?thesis by (simp add: visit_spec_def)
    next
      case False
      with T obtain ms where ms: "traverse (visit allowed) contents = Inr ms"
        and rs: "\<And>p. concat_all (map (render p) ms)
                  = (if list_ex (has_allowed allowed) contents then Inl AttributeError
                     else Inr (concat (map (written p) contents)))"
        by auto
      from None ms have "visit allowed (Tag name attrs contents) = Inr (HiddenTag name attrs ms)"
        by simp
      with None False rs [of name] show ?thesis
        by (simp add: visit_spec_def)
    qed
  next
    case (Some names)
    show ?thesis
    proof (cases "list_ex (\<lambda>key. length key \<noteq> 2) (map fst attrs)")
      case True
      then have "new_attrs names (map fst attrs) = Inl ValueError"
        by (rule new_attrs_bad)
      with Some True show ?thesis by (simp add: visit_spec_def)
    next
      case False
      then obtain pairs where p: "new_attrs names (map fst attrs) = Inr pairs"
        using new_attrs_good by blast
      show ?thesis
      proof (cases "list_ex (has_bad allowed) contents")
        case True
        with T Some p show ?thesis by (simp add: visit_spec_def)
      next
        case nb: False
        with T obtain ms where "traverse (visit allowed) contents = Inr ms" by auto
        with Some p have "visit allowed (Tag name attrs contents) = Inr (ListTag name pairs ms)"
          by simp
        with Some False nb show ?thesis by (simp add: visit_spec_def)
      qed
    qed
  qed
next
  case (Text s)
  show ?case by (simp add: visit_spec_def)
next
  case (Comment s)
  show ?case by (simp add: visit_spec_def)
qed

lemma extract_has_bad:
  "list_ex (has_bad allowed) (extract_comments n) = has_bad allowed n"
  by (induction n) (auto simp: list_ex_iff)

lemma extract_has_allowed:
  "list_ex (has_allowed allowed) (extract_comments n) = has_allowed allowed n"
  by (induction n) (auto simp: list_ex_iff)

lemma written_extract:
  "concat (map (written p) (extract_comments n)) = texts p n"
proof (induction n arbitrary: p)
  case (Tag name attrs contents)
  have "concat (map (written name) (concat (map extract_comments contents)))
          = concat (map (texts name) contents)"
    using Tag by (induction contents) simp_all
  then show ?case by simp
qed simp_all

lemma extract_all_has_bad:
  "list_ex (has_bad allowed) (concat (map extract_comments ns)) = list_ex (has_bad allowed) ns"
  using extract_has_bad [of allowed] by (induction ns) simp_all

lemma extract_all_has_allowed:
  "list_ex (has_allowed allowed) (concat (map extract_comments ns))
     = list_ex (has_allowed allowed) ns"
  using extract_has_allowed [of allowed] by (induction ns) simp_all

lemma written_extract_all:
  "concat (map (written p) (concat (map extract_comments ns))) = concat (map (texts p) ns)"
  by (induction ns) (simp_all add: written_extract)

lemma sanitize_soup_eq:
  "sanitize_soup allowed soup =
     (if list_ex (has_bad allowed) soup then Inl ValueError
      else if list_ex (has_allowed allowed) soup then Inl AttributeError
      else Inr (concat (map (texts ''[document]'') soup)))"
proof -
  let ?ns = "concat (map extract_comments soup)"
  have "\<forall>k\<in>set ?ns. visit_spec allowed k"
    by (simp add: visit_spec_holds)
  note T = traverse_visit [OF this]
  show ?thesis
  proof (cases "list_ex (has_bad allowed) soup")
    case True
    then have "list_ex (has_bad allowed) ?ns" by (simp add: extract_all_has_bad)
    with T have "traverse (visit allowed) ?ns = Inl ValueError" by simp
    with True show ?thesis by (simp add: sanitize_soup_def)
  next
    case False
    then have "\<not> list_ex (has_bad allowed) ?ns" by (simp add: extract_all_has_bad)
    with T obtain ms where ms: "traverse (visit allowed) ?ns = Inr ms"
      and rs: "\<And>p. concat_all (map (render p) ms)
                = (if list_ex (has_allowed allowed) ?ns then Inl AttributeError
                   else Inr (concat (map (written p) ?ns)))"
      by auto
    from ms have "sanitize_soup allowed soup = concat_all (map (render ''[document]'') ms)"
      by (simp add: sanitize_soup_def renderContents_def)
    with False rs [of "''[document]''"] show ?thesis
      by (simp add: extract_all_has_allowed written_extract_all)
  qed
qed


lemma sanitize_parse_error:
  "parse env val = Inl msg \<Longrightarrow>
   sanitize env val allowed_tags = Inr (diagnostic msg (linenumbers env val))"
  using policy_of_returns [of allowed_tags] by (auto simp: sanitize_def)





section \<open>Facts about the pattern of \<^verbatim>\<open>sanitize\<close>\<close>

lemma rep_rests_numeral:
  "rep_rests a m (numeral k) [] = (if m = 0 then [[]] else [])"
  "rep_rests a m (numeral k) (c # cs) =
     (if atom_ok a c
      then rep_rests a (m - 1) (pred_numeral k) cs @ (if m = 0 then [c # cs] else [])
      else (if m = 0 then [c # cs] else []))"
  by (simp_all only: numeral_eq_Suc rep_rests.simps)

lemmas js_eval = scrub_def js_regex_def js_ref_def match_here_def is_space_def
  rep_rests_numeral













section \<open>Facts about \<^verbatim>\<open>truncat\<close>\<close>

text \<open>
  The appended \<^verbatim>\<open>.*\<close> binds to the last branch of a pattern with a bar only: the
  match of the first branch is removed alone.
\<close>

lemma truncat_alternation: "truncat ''xaybz'' ''a|b'' = Some ''xy''"
  by (simp add: truncat_def re_compile_def is_special_def is_alnum_def branch_of_def
      group_of_def match_here_def)

section \<open>Theorems\<close>

text \<open>
  C6, as the code has it: \<open>replace\<close> fails, with an IndexError, exactly when the
  argument is empty or splits by its first character into fewer than three parts. With
  three parts or more it returns the string with the second part replaced by the third
  (further parts are ignored): an argument \<open>sep pat sep rep\<close> replaces \<open>pat\<close> by
  \<open>rep\<close>. The replacement works from left to right: up to the first occurrence of a
  non-empty \<open>pat\<close> the string is kept, the occurrence becomes \<open>rep\<close>, and the rest is
  treated the same way; a string without an occurrence is returned as it is.
\<close>

theorem replace_literal:
  "(replace s a = Inl e \<longleftrightarrow>
      e = IndexError \<and> (a = [] \<or> length (split_on (hd a) a) < 3))
   \<and> (a \<noteq> [] \<and> 3 \<le> length (split_on (hd a) a) \<longrightarrow>
        replace s a
          = Inr (str_replace s (split_on (hd a) a ! 1) (split_on (hd a) a ! 2)))
   \<and> (sep \<notin> set pat \<and> sep \<notin> set rep \<longrightarrow>
        replace s (sep # pat @ sep # rep) = Inr (str_replace s pat rep))
   \<and> (old \<noteq> [] \<and> (\<forall>i<length p. \<not> occurs_at old (p @ old @ r) i) \<longrightarrow>
        str_replace (p @ old @ r) old new = p @ new @ str_replace r old new)
   \<and> (old \<noteq> [] \<and> (\<forall>i<length t. \<not> occurs_at old t i) \<longrightarrow>
        str_replace t old new = t)
   \<and> replace ''hello world'' ''/world/eric'' = Inr ''hello eric''"
proof (intro conjI impI)
  show "replace s a = Inl e \<longleftrightarrow>
      e = IndexError \<and> (a = [] \<or> length (split_on (hd a) a) < 3)"
    by (rule replace_fails_iff)
  show "replace s a
          = Inr (str_replace s (split_on (hd a) a ! 1) (split_on (hd a) a ! 2))"
    if "a \<noteq> [] \<and> 3 \<le> length (split_on (hd a) a)"
    using that by (simp add: replace_returns)
  show "replace s (sep # pat @ sep # rep) = Inr (str_replace s pat rep)"
    if "sep \<notin> set pat \<and> sep \<notin> set rep"
    using that by (simp add: replace_three_parts)
  show "str_replace (p @ old @ r) old new = p @ new @ str_replace r old new"
    if "old \<noteq> [] \<and> (\<forall>i<length p. \<not> occurs_at old (p @ old @ r) i)"
    using that by (simp add: str_replace_def replace_from_first)
  show "str_replace t old new = t"
    if "old \<noteq> [] \<and> (\<forall>i<length t. \<not> occurs_at old t i)"
    using that by (simp add: str_replace_def replace_from_none)
  show "replace ''hello world'' ''/world/eric'' = Inr ''hello eric''"
    by (simp add: replace_def item_def str_replace_def)
qed

theorem replace_literal_witness:
  "replace ''hello world'' ''/world'' = Inl IndexError
   \<and> replace ''hello world'' ''/world/eric'' = Inr (str_replace ''hello world'' ''world'' ''eric'')
   \<and> replace ''/home/theuser/projects'' '',/home,/Users''
        = Inr (str_replace ''/home/theuser/projects'' ''/home'' ''/Users'')
   \<and> str_replace ''hello world'' ''world'' ''eric'' = ''hello eric''
   \<and> str_replace ''hello'' ''world'' ''eric'' = ''hello''"
  using replace_literal [of "''hello world''" "''/world''" IndexError
      "CHR '',''" "''/home''" "''/Users''" "''world''" "''hello ''" "[]" "''eric''" "''hello''"]
    replace_literal [of "''hello world''" "''/world/eric''" IndexError
      "CHR '',''" "''/home''" "''/Users''" "''world''" "''hello ''" "[]" "''eric''" "''hello''"]
  by (simp add: occurs_at_def str_replace_def item_def replace_def)

text \<open>
  An argument of four parts is accepted: the call returns a value although the argument
  does not split into exactly three parts.
\<close>

theorem replace_four_parts_counterexample:
  "length (split_on CHR ''/'' ''/world/eric/x'') \<noteq> 3
   \<and> replace ''hello world'' ''/world/eric/x'' = Inr ''hello eric''"
  by (simp add: replace_def item_def str_replace_def)


text \<open>
  C8: for dates \<open>bday\<close> and \<open>d\<close>, \<open>age\<close> is the difference of the years, less one exactly
  when the month and day of \<open>d\<close> come before the month and day of \<open>bday\<close>; the two
  examples of the specification give 11 and 12.
\<close>

theorem age_year_difference:
  "age today bday (Some d) =
     (year d - year bday)
       - (if month d < month bday \<or> (month d = month bday \<and> day d < day bday)
          then 1 else 0)
   \<and> age today \<lparr>year = 2006, month = 11, day = 9\<rparr>
        (Some \<lparr>year = 2018, month = 11, day = 8\<rparr>) = 11
   \<and> age today \<lparr>year = 2006, month = 11, day = 9\<rparr>
        (Some \<lparr>year = 2018, month = 11, day = 9\<rparr>) = 12"
  by (simp add: age_def tuple_less_def)

text \<open>
  C7, as the code has it for int operands: \<open>divide\<close> fails with ZeroDivisionError
  exactly when the divisor is zero. For a divisor that is not zero it returns the
  double nearest to the quotient when the magnitude of the quotient is below
  \<open>2 ^ 1024 - 2 ^ 970\<close>, and fails with OverflowError otherwise, where the nearest
  double would be \<open>2 ^ 1024\<close> or more. The result is within the relative error
  \<open>2 ^ - 53\<close> of the quotient once the quotient is in the normal range; a quotient
  that is a double is returned as it is, in particular an integer quotient below
  \<open>2 ^ 53\<close>, so that \<open>divide 50 2\<close> is 25.
\<close>

theorem divide_quotient:
  "(divide val arg = Inl ZeroDivisionError \<longleftrightarrow> arg = 0)
   \<and> (arg \<noteq> 0 \<and> \<bar>of_int val / of_int arg :: rat\<bar> < pow2 1024 - pow2 970 \<longrightarrow>
        divide val arg = Inr (nearest_double (of_int val / of_int arg)))
   \<and> (arg \<noteq> 0 \<and> pow2 1024 - pow2 970 \<le> \<bar>of_int val / of_int arg :: rat\<bar> \<longrightarrow>
        divide val arg = Inl OverflowError)
   \<and> (arg \<noteq> 0 \<and> \<bar>of_int val / of_int arg :: rat\<bar> < pow2 1023 \<longrightarrow>
        divide val arg = Inr (nearest_double (of_int val / of_int arg)))
   \<and> (arg \<noteq> 0 \<and> pow2 (- 1022) \<le> \<bar>of_int val / of_int arg :: rat\<bar> \<longrightarrow>
        \<bar>nearest_double (of_int val / of_int arg) - of_int val / of_int arg\<bar>
          \<le> \<bar>of_int val / of_int arg\<bar> / 2 ^ 53)
   \<and> (arg \<noteq> 0 \<and> arg dvd val \<and> \<bar>val div arg\<bar> < 2 ^ 53 \<longrightarrow>
        divide val arg = Inr (of_int (val div arg)))
   \<and> (arg \<noteq> 0 \<and> of_int val / of_int arg = of_int m * pow2 p \<and> \<bar>m\<bar> < 2 ^ 53
        \<and> - 1074 \<le> p \<and> \<bar>of_int val / of_int arg :: rat\<bar> < pow2 1024 \<longrightarrow>
        divide val arg = Inr (of_int val / of_int arg))
   \<and> divide 50 2 = Inr 25"
proof (intro conjI impI)
  show "divide val arg = Inl ZeroDivisionError \<longleftrightarrow> arg = 0"
    by (rule divide_zero_iff)
  show "divide val arg = Inr (nearest_double (of_int val / of_int arg))"
    if "arg \<noteq> 0 \<and> \<bar>of_int val / of_int arg :: rat\<bar> < pow2 1024 - pow2 970"
    using that divide_nonzero [of arg val] by simp
  show "divide val arg = Inl OverflowError"
    if "arg \<noteq> 0 \<and> pow2 1024 - pow2 970 \<le> \<bar>of_int val / of_int arg :: rat\<bar>"
    using that divide_nonzero [of arg val] by simp
  show "divide val arg = Inr (nearest_double (of_int val / of_int arg))"
    if "arg \<noteq> 0 \<and> \<bar>of_int val / of_int arg :: rat\<bar> < pow2 1023"
    using that divide_returns by blast
  show "\<bar>nearest_double (of_int val / of_int arg) - of_int val / of_int arg\<bar>
          \<le> \<bar>of_int val / of_int arg\<bar> / 2 ^ 53"
    if "arg \<noteq> 0 \<and> pow2 (- 1022) \<le> \<bar>of_int val / of_int arg :: rat\<bar>"
    using that nearest_double_relative by blast
  show "divide val arg = Inr (of_int (val div arg))"
    if "arg \<noteq> 0 \<and> arg dvd val \<and> \<bar>val div arg\<bar> < 2 ^ 53"
    using that divide_integer by blast
  show "divide val arg = Inr (of_int val / of_int arg)"
    if "arg \<noteq> 0 \<and> of_int val / of_int arg = of_int m * pow2 p \<and> \<bar>m\<bar> < 2 ^ 53
        \<and> - 1074 \<le> p \<and> \<bar>of_int val / of_int arg :: rat\<bar> < pow2 1024"
    using that divide_exact by blast
  show "divide 50 2 = Inr 25"
    by (rule divide_50_2)
qed

theorem divide_quotient_witness:
  "divide 10 0 = Inl ZeroDivisionError
   \<and> divide 50 2 = Inr (nearest_double 25)
   \<and> \<bar>nearest_double 25 - 25\<bar> \<le> 25 / 2 ^ 53
   \<and> divide 50 2 = Inr 25
   \<and> divide 7 2 = Inr (7 / 2)
   \<and> divide (2 ^ 1025) 1 = Inl OverflowError"
  using divide_quotient [of 10 0 0 0] divide_quotient [of 50 2 25 0]
    divide_quotient [of 7 2 7 "- 1"] divide_quotient [of "2 ^ 1025" 1 0 0]
  by (auto simp: pow2_def)

text \<open>
  A divisor that is not zero does not always give the quotient: the quotient of
  \<open>2 ^ 1024\<close> by 1 is too large for a float, and the call fails.
\<close>

theorem divide_overflow_counterexample:
  "(1 :: int) \<noteq> 0 \<and> divide (2 ^ 1024) 1 = Inl OverflowError"
  using divide_overflow by simp

text \<open>
  C9 at a duration of zero days: from 8:00 to 17:30 of the same day the code returns
  \<^verbatim>\<open>None\<close>, not the phrase \<^verbatim>\<open>today\<close>; the branch that returns it stands under
  \<^verbatim>\<open>if days:\<close> and is never reached.
\<close>

theorem timesince_simple_zero_days:
  "timedelta_days
      \<lparr>dt_year = 2018, dt_month = 11, dt_day = 9, dt_hour = 17, dt_minute = 30,
        dt_second = 0, dt_microsecond = 0\<rparr>
      \<lparr>dt_year = 2018, dt_month = 11, dt_day = 9, dt_hour = 8, dt_minute = 0,
        dt_second = 0, dt_microsecond = 0\<rparr> = 0
   \<and> timesince_simple
      \<lparr>dt_year = 2018, dt_month = 11, dt_day = 9, dt_hour = 17, dt_minute = 30,
        dt_second = 0, dt_microsecond = 0\<rparr>
      \<lparr>dt_year = 2018, dt_month = 11, dt_day = 9, dt_hour = 8, dt_minute = 0,
        dt_second = 0, dt_microsecond = 0\<rparr>
      (Some \<lparr>dt_year = 2018, dt_month = 11, dt_day = 9, dt_hour = 17, dt_minute = 30,
        dt_second = 0, dt_microsecond = 0\<rparr>) = Inr None"
  by (simp add: timesince_simple_def timedelta_days_def toordinal_def)

text \<open>
  C1 at the fragment \<^verbatim>\<open><a href=x>\<close> with the policy \<^verbatim>\<open>a:href\<close>: the parser returns one
  element \<^verbatim>\<open>a\<close> with the attribute \<^verbatim>\<open>href\<close>, the loop over \<^verbatim>\<open>tag.attrs\<close> unpacks the name
  \<^verbatim>\<open>href\<close> into two variables, and \<open>sanitize\<close> raises ValueError: the loop stands after
  the \<^verbatim>\<open>try\<close>.
\<close>

theorem sanitize_raises_after_parse:
  "sanitize (env_of [Tag ''a'' [(''href'', ''x'')] []]) ''<a href=x>'' ''a:href''
     = Inl ValueError
   \<and> sanitize_soup [''a'' \<mapsto> [''href'']] [Tag ''a'' [(''href'', ''x'')] []] = Inl ValueError"
  by (simp add: sanitize_def policy_of_def item_def env_of_def is_space_def sanitize_soup_eq)

text \<open>
  C2 at an element of the policy: with the attributes \<^verbatim>\<open>href\<close> and \<^verbatim>\<open>onclick\<close> and the
  policy \<^verbatim>\<open>a:href\<close> the call raises ValueError and no attribute is retained. An
  attribute name of two characters is itself split into a name and a value, and an
  element of the policy without attributes makes the serialiser raise AttributeError.
\<close>

theorem sanitize_retains_no_attribute:
  \<open>sanitize (env_of [Tag ''a'' [(''href'', ''x''), (''onclick'', ''y'')] [Text ''l'']])
       ''<a href="x" onclick="y">l</a>'' ''a:href''
     = Inl ValueError
   \<and> new_attrs [''i''] (map fst [(''id'', ''k'')]) = Inr [(''i'', ''d'')]
   \<and> sanitize (env_of [Tag ''b'' [] [Text ''l'']]) ''<b>l</b>'' ''b'' = Inl AttributeError\<close>
  by (simp add: sanitize_def policy_of_def item_def env_of_def sanitize_soup_eq
      unpack2_def js_eval)

text \<open>
  C4 at a disallowed element that wraps an element of the policy: for
  \<^verbatim>\<open><span id="x"><b>hi</b></span>\<close> with the policy \<^verbatim>\<open>b\<close> the call raises AttributeError,
  and the content is not written. Where the content is text only, the element is
  unwrapped and the text is written.
\<close>

theorem sanitize_raises_inside_hidden:
  \<open>sanitize (env_of [Tag ''span'' [(''id'', ''x'')] [Tag ''b'' [] [Text ''hi'']]])
       ''<span id="x"><b>hi</b></span>'' ''b''
     = Inl AttributeError
   \<and> sanitize (env_of [Tag ''span'' [(''id'', ''x'')] [Text ''hi'']])
       ''<span id="x">hi</span>'' ''b''
     = Inr ''hi''\<close>
  by (simp add: sanitize_def policy_of_def item_def env_of_def is_space_def sanitize_soup_eq
      text_out_def)




text \<open>
  C10 on a string of two lines: the text from the first match to the end of its line
  is removed, and the following line stays: the result is not the prefix before the
  first match. The dot of the appended \<^verbatim>\<open>.*\<close> does not match a newline. The example of
  the docstring, one line, gives the prefix.
\<close>

theorem truncat_stops_at_line_end:
  "truncat (''ab.cd'' @ [CHR 0x0A] @ ''ef'') [CHR 0x5C, CHR ''.'']
     = Some (''ab'' @ [CHR 0x0A] @ ''ef'')
   \<and> truncat ''abc...xyz'' [CHR 0x5C, CHR ''.''] = Some ''abc''"
  by (simp add: truncat_def re_compile_def is_special_def is_alnum_def branch_of_def
      group_of_def match_here_def)




end

